theory Spec2Isabelle
  imports Complex_Main
begin

section \<open>Staggered race over redundant Langflow flows\<close>

text \<open>
  A shallow embedding of
  \<^verbatim>\<open>test-api-langflow-interactive-alwaynewSession-parallel-withFallback.py\<close>:
  the response parser \<^verbatim>\<open>extract_message_from_response\<close>, the worker
  \<^verbatim>\<open>call_single_flow_with_delay\<close> and the scheduler with its retry loop
  \<^verbatim>\<open>call_langflow_staggered_race\<close>.

  Conventions of the model.
  \<^item> Time is counted in seconds as a rational number. The source adds \<^verbatim>\<open>0.5\<close> to
    an integer delay, and every such value is a multiple of one half.
  \<^item> \<^verbatim>\<open>time.sleep(d)\<close> is taken to last exactly \<open>d\<close> seconds and every other
    statement to take no time, so a worker's elapsed time is the sum of its sleeps.
  \<^item> Everything the program gets from outside is a parameter: what
    \<^verbatim>\<open>winner_event.is_set()\<close> answers at a given moment, what \<^verbatim>\<open>requests.post\<close>
    answers and how long it takes, the strings \<^verbatim>\<open>uuid.uuid4()\<close> yields, the order in
    which \<^verbatim>\<open>as_completed\<close> hands futures over, and the clock.
  \<^item> What a thread does besides computing its value is recorded as a list of effects.
    Console output is not recorded.
  \<^item> A Python exception is a value of type \<open>pyexn\<close>; a computation that may raise
    returns \<open>pyexn + 'a\<close>.
\<close>

subsection \<open>JSON values and Python subscripting\<close>

datatype json =
    JNull
  | JBool bool
  | JNum rat
  | JStr string
  | JList "json list"
  | JDict "(string \<times> json) list"

datatype fpart = Lit string | Num int

datatype pyexn =
    KeyError
  | IndexError
  | TypeError
  | AttributeError
  | Timeout
  | ConnectionError
  | HTTPError
  | JSONDecodeError
  | ValueError
  | Exception "fpart list"

datatype subscript = Key string | Idx nat

text \<open>
  \<^verbatim>\<open>obj[k]\<close> for a value decoded from JSON. A dict of decoded JSON has string keys
  only, so an integer subscript is a missing key. A string subscripted by an integer
  gives the one-character string at that place.
\<close>

fun getitem :: "json \<Rightarrow> subscript \<Rightarrow> pyexn + json" where
  "getitem (JDict kvs) (Key k) = (case map_of kvs k of None \<Rightarrow> Inl KeyError | Some v \<Rightarrow> Inr v)"
| "getitem (JDict kvs) (Idx i) = Inl KeyError"
| "getitem (JList xs) (Idx i) = (if i < length xs then Inr (xs ! i) else Inl IndexError)"
| "getitem (JList xs) (Key k) = Inl TypeError"
| "getitem (JStr s) (Idx i) = (if i < length s then Inr (JStr [s ! i]) else Inl IndexError)"
| "getitem (JStr s) (Key k) = Inl TypeError"
| "getitem JNull k = Inl TypeError"
| "getitem (JBool b) k = Inl TypeError"
| "getitem (JNum n) k = Inl TypeError"

fun getpath :: "json \<Rightarrow> subscript list \<Rightarrow> pyexn + json" where
  "getpath v [] = Inr v"
| "getpath v (k # ks) = (case getitem v k of Inl e \<Rightarrow> Inl e | Inr w \<Rightarrow> getpath w ks)"

text \<open>
  \<^verbatim>\<open>
  def extract_message_from_response(response_data):
      try:
          return response_data["outputs"][0]["outputs"][0]["results"]["message"]["text"]
      except (KeyError, IndexError, TypeError):
          return ""
  \<close>
  Any other exception would leave the function.
\<close>

definition message_path :: "subscript list" where
  "message_path =
     [Key ''outputs'', Idx 0, Key ''outputs'', Idx 0,
      Key ''results'', Key ''message'', Key ''text'']"

definition extract_message_from_response :: "json \<Rightarrow> pyexn + json" where
  "extract_message_from_response response_data =
     (case getpath response_data message_path of
        Inr text \<Rightarrow> Inr text
      | Inl KeyError \<Rightarrow> Inr (JStr [])
      | Inl IndexError \<Rightarrow> Inr (JStr [])
      | Inl TypeError \<Rightarrow> Inr (JStr [])
      | Inl e \<Rightarrow> Inl e)"

subsection \<open>Truth value and \<^verbatim>\<open>str.strip\<close>\<close>

fun truthy :: "json \<Rightarrow> bool" where
  "truthy JNull = False"
| "truthy (JBool b) = b"
| "truthy (JNum n) = (n \<noteq> 0)"
| "truthy (JStr s) = (s \<noteq> [])"
| "truthy (JList xs) = (xs \<noteq> [])"
| "truthy (JDict kvs) = (kvs \<noteq> [])"

text \<open>The characters below code point 256 for which \<^verbatim>\<open>str.isspace\<close> holds.\<close>

definition isspace :: "char \<Rightarrow> bool" where
  "isspace c =
     (let n = (of_char c :: nat)
      in (9 \<le> n \<and> n \<le> 13) \<or> (28 \<le> n \<and> n \<le> 32) \<or> n = 133 \<or> n = 160)"

definition strip :: "string \<Rightarrow> string" where
  "strip s = rev (dropWhile isspace (rev (dropWhile isspace s)))"

subsection \<open>The backend call\<close>

record request =
  req_url :: string
  req_output_type :: string
  req_input_type :: string
  req_input_value :: string
  req_session_id :: string
  req_api_key :: string

text \<open>A response: its status code and its body, \<open>None\<close> when the body is not JSON.\<close>

record response =
  status_code :: nat
  body :: "json option"

definition raise_for_status :: "response \<Rightarrow> pyexn + unit" where
  "raise_for_status r =
     (if 400 \<le> status_code r \<and> status_code r < 600 then Inl HTTPError else Inr ())"

definition response_json :: "response \<Rightarrow> pyexn + json" where
  "response_json r = (case body r of None \<Rightarrow> Inl JSONDecodeError | Some j \<Rightarrow> Inr j)"

text \<open>
  What \<^verbatim>\<open>requests.post\<close> does for a request: the time it takes, and the exception
  it raises or the response it returns.
\<close>

type_synonym backend = "request \<Rightarrow> rat \<times> (pyexn + response)"

subsection \<open>Effects\<close>

datatype effect =
    Is_set rat bool
  | Sleep rat
  | Post request
  | Uuid4 string
  | Attempt int string
  | Event_set
  | Attempt_failed int

text \<open>
  \<open>Is_set t b\<close>: the worker called \<^verbatim>\<open>winner_event.is_set()\<close> \<open>t\<close> seconds after it
  started and got \<open>b\<close>. \<open>Sleep d\<close>: \<^verbatim>\<open>time.sleep(d)\<close>. \<open>Post r\<close>: the request was
  sent. \<open>Uuid4 s\<close>: \<^verbatim>\<open>str(uuid.uuid4())\<close> gave \<open>s\<close>. \<open>Attempt k sid\<close>: attempt \<open>k\<close>
  began, with a new event and one worker per flow submitted under session \<open>sid\<close>.
  \<open>Event_set\<close>: \<^verbatim>\<open>winner_event.set()\<close>. \<open>Attempt_failed k\<close>: the report that
  attempt \<open>k\<close> failed.
\<close>

subsection \<open>The worker\<close>

text \<open>The tuple a worker returns: success, flow id, message, elapsed, cancelled.\<close>

type_synonym outcome = "bool \<times> string \<times> string \<times> rat \<times> bool"

definition out_success :: "outcome \<Rightarrow> bool" where
  "out_success out = fst out"

definition out_cancelled :: "outcome \<Rightarrow> bool" where
  "out_cancelled out = snd (snd (snd (snd out)))"

text \<open>
  \<^verbatim>\<open>
  waited = 0
  while waited < delay_seconds:
      if winner_event and winner_event.is_set():
          return (False, flow_id, "", 0, True)
      time.sleep(min(0.5, delay_seconds - waited))
      waited += 0.5
  \<close>
  The loop returns its effects and whether the worker was cancelled. \<open>now\<close> is the
  time since the worker started. An absent \<^verbatim>\<open>winner_event\<close> is \<open>None\<close> and is never
  asked.
\<close>

function delay_loop ::
  "(rat \<Rightarrow> bool) option \<Rightarrow> int \<Rightarrow> rat \<Rightarrow> rat \<Rightarrow> effect list \<times> bool" where
  "delay_loop winner_event delay_seconds waited now =
     (if waited < of_int delay_seconds then
        (case winner_event of
           Some is_set \<Rightarrow>
             if is_set now then ([Is_set now True], True)
             else
               (let d = min (1 / 2) (of_int delay_seconds - waited);
                    rest = delay_loop winner_event delay_seconds (waited + 1 / 2) (now + d)
                in (Is_set now False # Sleep d # fst rest, snd rest))
         | None \<Rightarrow>
             (let d = min (1 / 2) (of_int delay_seconds - waited);
                  rest = delay_loop winner_event delay_seconds (waited + 1 / 2) (now + d)
              in (Sleep d # fst rest, snd rest)))
      else ([], False))"
  by pat_completeness auto
termination
proof -
  have step: "\<lceil>2 * rat_of_int delay_seconds - (2 * waited + 1)\<rceil>
              < \<lceil>2 * rat_of_int delay_seconds - 2 * waited\<rceil>"
    for delay_seconds and waited :: rat
  proof -
    have "2 * rat_of_int delay_seconds - (2 * waited + 1)
          = (2 * rat_of_int delay_seconds - 2 * waited) - 1"
      by simp
    then show ?thesis
      by (simp only: ceiling_diff_one)
  qed
  show ?thesis
    by (relation "measure (\<lambda>(winner_event, delay_seconds, waited, now).
                   nat \<lceil>2 * (rat_of_int delay_seconds - waited)\<rceil>)")
       (simp_all add: step)
qed

text \<open>
  \<^verbatim>\<open>
  BASE_URL = "http://localhost:7860/api/v1/run"
  url = f"{BASE_URL}/{flow_id}"
  payload = {"output_type": "chat", "input_type": "chat",
             "input_value": input_message, "session_id": session_id}
  headers = {"Content-Type": "application/json", "x-api-key": api_key}
  \<close>
\<close>

definition BASE_URL :: string where
  "BASE_URL = ''http://localhost:7860/api/v1/run''"

definition make_request :: "string \<Rightarrow> string \<Rightarrow> string \<Rightarrow> string \<Rightarrow> request" where
  "make_request api_key flow_id input_message session_id =
     \<lparr>req_url = BASE_URL @ ''/'' @ flow_id,
      req_output_type = ''chat'',
      req_input_type = ''chat'',
      req_input_value = input_message,
      req_session_id = session_id,
      req_api_key = api_key\<rparr>"

text \<open>
  The body of the \<^verbatim>\<open>try\<close>:
  \<^verbatim>\<open>
  response = requests.post(url, json=payload, headers=headers)
  response.raise_for_status()
  elapsed = time.time() - start_time
  response_data = response.json()
  message_text = extract_message_from_response(response_data)
  if message_text and message_text.strip():
      return (True, flow_id, message_text, elapsed, False)
  else:
      return (False, flow_id, "", elapsed, False)
  \<close>
  \<open>reply\<close> is what \<^verbatim>\<open>requests.post\<close> did. The test
  \<^verbatim>\<open>message_text and message_text.strip()\<close> first takes the truth value of
  \<^verbatim>\<open>message_text\<close>; when that is true it calls \<^verbatim>\<open>strip\<close>, which only a string
  has, so any other true value raises \<^verbatim>\<open>AttributeError\<close>.
\<close>

definition try_body :: "rat \<times> (pyexn + response) \<Rightarrow> string \<Rightarrow> pyexn + outcome" where
  "try_body reply flow_id =
     (case snd reply of
        Inl e \<Rightarrow> Inl e
      | Inr response \<Rightarrow>
          (case raise_for_status response of
             Inl e \<Rightarrow> Inl e
           | Inr u \<Rightarrow>
               (let elapsed = fst reply
                in case response_json response of
                     Inl e \<Rightarrow> Inl e
                   | Inr response_data \<Rightarrow>
                       (case extract_message_from_response response_data of
                          Inl e \<Rightarrow> Inl e
                        | Inr (JStr message_text) \<Rightarrow>
                            if message_text \<noteq> [] \<and> strip message_text \<noteq> []
                            then Inr (True, flow_id, message_text, elapsed, False)
                            else Inr (False, flow_id, [], elapsed, False)
                        | Inr other \<Rightarrow>
                            if truthy other then Inl AttributeError
                            else Inr (False, flow_id, [], elapsed, False)))))"

text \<open>
  Lines 56 to 97: the request is built and sent once, and both handlers
  (\<^verbatim>\<open>except requests.exceptions.Timeout\<close>, \<^verbatim>\<open>except Exception\<close>) return the same
  failed outcome. Every \<open>pyexn\<close> is an \<^verbatim>\<open>Exception\<close>.
\<close>

definition send_request ::
  "backend \<Rightarrow> string \<Rightarrow> string \<Rightarrow> string \<Rightarrow> string \<Rightarrow> effect list \<times> outcome" where
  "send_request requests_post api_key flow_id input_message session_id =
     (let rq = make_request api_key flow_id input_message session_id;
          reply = requests_post rq;
          elapsed = fst reply
      in ([Post rq],
          case try_body reply flow_id of
            Inr out \<Rightarrow> out
          | Inl Timeout \<Rightarrow> (False, flow_id, [], elapsed, False)
          | Inl e \<Rightarrow> (False, flow_id, [], elapsed, False)))"

definition call_single_flow_with_delay ::
  "backend \<Rightarrow> string \<Rightarrow> string \<Rightarrow> string \<Rightarrow> string \<Rightarrow> int \<Rightarrow> (rat \<Rightarrow> bool) option
   \<Rightarrow> effect list \<times> outcome" where
  "call_single_flow_with_delay requests_post api_key flow_id input_message session_id
       delay_seconds winner_event =
     (let waiting = (if delay_seconds > 0 then delay_loop winner_event delay_seconds 0 0
                     else ([], False))
      in if snd waiting then (fst waiting, (False, flow_id, [], 0, True))
         else
           (let sent = send_request requests_post api_key flow_id input_message session_id
            in (fst waiting @ fst sent, snd sent)))"

subsection \<open>One attempt of the scheduler\<close>

text \<open>
  A row of \<^verbatim>\<open>all_results\<close>, and the variables of one attempt: \<^verbatim>\<open>all_results\<close>,
  \<^verbatim>\<open>winner_found\<close>, the flag of \<^verbatim>\<open>winner_event\<close>, the effects of the
  scheduler's thread so far, and the clock at which the \<^verbatim>\<open>with\<close> block of the
  executor is left, \<open>None\<close> as long as the scheduler is inside it.
\<close>

record result_row =
  row_flow_id :: string
  row_success :: bool
  row_message :: string
  row_elapsed :: rat
  row_delay :: int
  row_total_time :: rat

record attempt_state =
  st_all_results :: "result_row list"
  st_winner_found :: bool
  st_event_flag :: bool
  st_effects :: "effect list"
  st_left_at :: "rat option"

text \<open>
  \<^verbatim>\<open>
  winner_event = threading.Event()
  all_results = []
  winner_found = False
  \<close>
\<close>

definition fresh_attempt :: attempt_state where
  "fresh_attempt =
     \<lparr>st_all_results = [], st_winner_found = False, st_event_flag = False, st_effects = [],
      st_left_at = None\<rparr>"

text \<open>
  A finished future: the entry \<^verbatim>\<open>futures[future] = (flow_id, delay)\<close> and
  \<^verbatim>\<open>future.result()\<close>.
\<close>

type_synonym future = "(string \<times> int) \<times> outcome"

definition make_row :: "future \<Rightarrow> result_row" where
  "make_row fu =
     (case fu of ((flow_id0, delay), (success, flow_id, message, elapsed, cancelled)) \<Rightarrow>
        \<lparr>row_flow_id = flow_id, row_success = success, row_message = message,
         row_elapsed = elapsed, row_delay = delay,
         row_total_time = elapsed + of_int delay\<rparr>)"

text \<open>
  \<^verbatim>\<open>
  for future in as_completed(futures):
      flow_id, delay = futures[future]
      success, flow_id, message, elapsed, cancelled = future.result()
      if cancelled:
          continue
      all_results.append({...})
      if success and not winner_found:
          winner_found = True
          winner_event.set()
          overall_elapsed = time.time() - overall_start
          time.sleep(0.5)
          return message, flow_id, overall_elapsed
  \<close>
  The list holds the futures in the order \<^verbatim>\<open>as_completed\<close> hands them over, each
  with the reading of \<^verbatim>\<open>time.time()\<close> at the moment the scheduler handles it. The
  result is the state on leaving the loop and the returned triple, \<open>None\<close> when the
  loop ends without \<^verbatim>\<open>return\<close>.
\<close>

fun for_as_completed ::
  "rat \<Rightarrow> (future \<times> rat) list \<Rightarrow> attempt_state
   \<Rightarrow> attempt_state \<times> (string \<times> string \<times> rat) option" where
  "for_as_completed overall_start [] st = (st, None)"
| "for_as_completed overall_start ((fu, t) # rest) st =
     (case fu of ((flow_id0, delay), (success, flow_id, message, elapsed, cancelled)) \<Rightarrow>
        if cancelled then for_as_completed overall_start rest st
        else
          (let st1 = st\<lparr>st_all_results := st_all_results st @ [make_row fu]\<rparr>
           in if success \<and> \<not> st_winner_found st1 then
                (let overall_elapsed = t - overall_start
                 in (st1\<lparr>st_winner_found := True, st_event_flag := True,
                         st_effects := st_effects st1 @ [Event_set, Sleep (1 / 2)]\<rparr>,
                     Some (message, flow_id, overall_elapsed)))
              else for_as_completed overall_start rest st1))"

subsection \<open>The surroundings of a race\<close>

text \<open>
  \<open>uuid4 n\<close> is the string the \<open>n\<close>-th call of \<^verbatim>\<open>str(uuid.uuid4())\<close> gives.
  \<open>time_time k\<close> is the clock when attempt \<open>k\<close> starts. \<open>as_completed k\<close> lists,
  in the order of completion in attempt \<open>k\<close>, the position of each future and the
  clock when the scheduler handles it. \<open>is_set_at k idx t\<close> is what the worker at
  position \<open>idx\<close> of attempt \<open>k\<close> reads from the event \<open>t\<close> seconds after its
  start. \<open>backend_at k\<close> is what \<^verbatim>\<open>requests.post\<close> does during attempt \<open>k\<close>.
\<close>

record world =
  uuid4 :: "nat \<Rightarrow> string"
  time_time :: "int \<Rightarrow> rat"
  as_completed :: "int \<Rightarrow> (nat \<times> rat) list"
  is_set_at :: "int \<Rightarrow> nat \<Rightarrow> rat \<Rightarrow> bool"
  backend_at :: "int \<Rightarrow> backend"

definition FLOW_IDS :: "string list" where
  "FLOW_IDS =
     [''d29ded11-0b13-4f7b-9616-bf789ac308c1'',
      ''ef7a48a6-d502-408c-b945-2285f204addc'',
      ''ad4f9e7b-a7fd-4272-a169-31e51a001cc1'']"

text \<open>
  \<^verbatim>\<open>
  for idx, flow_id in enumerate(FLOW_IDS):
      delay = idx * stagger_delay
      future = executor.submit(call_single_flow_with_delay, flow_id, input_message,
                               session_id, delay, winner_event)
      futures[future] = (flow_id, delay)
  \<close>
  The list of flows is a parameter. Each future is given with the outcome its worker
  will have.
\<close>

definition submit_all ::
  "world \<Rightarrow> string \<Rightarrow> string list \<Rightarrow> string \<Rightarrow> string \<Rightarrow> int \<Rightarrow> int \<Rightarrow> future list" where
  "submit_all w api_key flow_ids input_message session_id stagger_delay attempt =
     map (\<lambda>(idx, flow_id).
            (let delay = int idx * stagger_delay
             in ((flow_id, delay),
                 snd (call_single_flow_with_delay (backend_at w attempt) api_key flow_id
                        input_message session_id delay (Some (is_set_at w attempt idx))))))
         (enumerate 0 flow_ids)"

text \<open>
  The futures in the order \<^verbatim>\<open>as_completed\<close> hands them over. It hands over
  submitted futures only, so a position outside the list is passed over.
\<close>

definition handed ::
  "world \<Rightarrow> string \<Rightarrow> string list \<Rightarrow> string \<Rightarrow> string \<Rightarrow> int \<Rightarrow> int
   \<Rightarrow> (future \<times> rat) list" where
  "handed w api_key flow_ids input_message session_id stagger_delay attempt =
     (let futures = submit_all w api_key flow_ids input_message session_id stagger_delay attempt
      in map (\<lambda>(i, t). (futures ! i, t))
           (filter (\<lambda>(i, t). i < length futures) (as_completed w attempt)))"

text \<open>
  The time a worker takes is the sum of its sleeps and of the time its request takes.
  The executor has as many threads as there are flows, so every worker starts when it
  is submitted, at the start of the attempt, and \<open>finish_times\<close> lists the clock at
  which each worker of the attempt returns.
\<close>

fun effect_time :: "backend \<Rightarrow> effect \<Rightarrow> rat" where
  "effect_time requests_post (Sleep d) = d"
| "effect_time requests_post (Post rq) = fst (requests_post rq)"
| "effect_time requests_post e = 0"

definition finish_time :: "backend \<Rightarrow> effect list \<Rightarrow> rat" where
  "finish_time requests_post effects = sum_list (map (effect_time requests_post) effects)"

definition finish_times ::
  "world \<Rightarrow> string \<Rightarrow> string list \<Rightarrow> string \<Rightarrow> string \<Rightarrow> int \<Rightarrow> int \<Rightarrow> rat list" where
  "finish_times w api_key flow_ids input_message session_id stagger_delay attempt =
     map (\<lambda>(idx, flow_id).
            time_time w attempt
            + finish_time (backend_at w attempt)
                (fst (call_single_flow_with_delay (backend_at w attempt) api_key flow_id
                        input_message session_id (int idx * stagger_delay)
                        (Some (is_set_at w attempt idx)))))
         (enumerate 0 flow_ids)"

text \<open>
  The body of the \<^verbatim>\<open>for attempt\<close> loop up to the end of the \<^verbatim>\<open>with\<close> block:
  \<^verbatim>\<open>
  overall_start = time.time()
  winner_event = threading.Event()
  all_results = []
  winner_found = False
  with ThreadPoolExecutor(max_workers=len(FLOW_IDS)) as executor:
      ... submit the workers, loop over as_completed(futures) ...
  \<close>
  The scheduler is through with the body of the block half a second after it handled
  the winner (the sleep before \<^verbatim>\<open>return\<close>), or, without a winner, when it has
  handled the last future. Leaving the block, by \<^verbatim>\<open>return\<close> as well, calls
  \<^verbatim>\<open>executor.shutdown(wait=True)\<close>, which waits until every worker has returned: the
  block is left at the latest of these moments.
\<close>

definition run_attempt ::
  "world \<Rightarrow> string \<Rightarrow> string list \<Rightarrow> string \<Rightarrow> string \<Rightarrow> int \<Rightarrow> int
   \<Rightarrow> attempt_state \<times> (string \<times> string \<times> rat) option" where
  "run_attempt w api_key flow_ids input_message session_id stagger_delay attempt =
     (let overall_start = time_time w attempt;
          completed = handed w api_key flow_ids input_message session_id stagger_delay attempt;
          looped = for_as_completed overall_start completed fresh_attempt;
          through = (case snd looped of
                       Some (message, flow_id, overall_elapsed) \<Rightarrow>
                         overall_start + overall_elapsed + 1 / 2
                     | None \<Rightarrow> fold max (map snd completed) overall_start);
          joined = fold max (finish_times w api_key flow_ids input_message session_id
                               stagger_delay attempt) through
      in ((fst looped)\<lparr>st_left_at := Some joined\<rparr>, snd looped))"

subsection \<open>The retry loop\<close>

text \<open>
  \<^verbatim>\<open>
  session_id = str(uuid.uuid4())
  for attempt in range(1, max_retries + 1):
      ... one attempt, which may return ...
      if attempt < max_retries:
          time.sleep(retry_delay)
          session_id = str(uuid.uuid4())
  raise Exception(f"All flows failed after {max_retries} attempts. "
                  f"Total flows tried: {len(FLOW_IDS)} x {max_retries} = {len(FLOW_IDS) * max_retries}")
  \<close>
  \<^verbatim>\<open>time.sleep\<close> raises \<^verbatim>\<open>ValueError\<close> for a negative length. \<open>n\<close> counts the
  calls of \<^verbatim>\<open>uuid.uuid4\<close> made so far. The message of the final exception keeps its
  interpolated numbers as numbers.
\<close>

definition exhausted_message :: "string list \<Rightarrow> int \<Rightarrow> fpart list" where
  "exhausted_message flow_ids max_retries =
     [Lit ''All flows failed after '', Num max_retries, Lit '' attempts. '',
      Lit ''Total flows tried: '', Num (int (length flow_ids)), Lit '' x '', Num max_retries,
      Lit '' = '', Num (int (length flow_ids) * max_retries)]"

function retry_loop ::
  "world \<Rightarrow> string \<Rightarrow> string list \<Rightarrow> string \<Rightarrow> int \<Rightarrow> int \<Rightarrow> int \<Rightarrow> int \<Rightarrow> string \<Rightarrow> nat
   \<Rightarrow> effect list \<times> (pyexn + string \<times> string \<times> rat)" where
  "retry_loop w api_key flow_ids input_message stagger_delay max_retries retry_delay
       attempt session_id n =
     (if attempt \<le> max_retries then
        (let ran = run_attempt w api_key flow_ids input_message session_id stagger_delay attempt;
             begun = Attempt attempt session_id # st_effects (fst ran)
         in case snd ran of
              Some result \<Rightarrow> (begun, Inr result)
            | None \<Rightarrow>
                if attempt < max_retries then
                  if retry_delay < 0 then (begun @ [Attempt_failed attempt], Inl ValueError)
                  else
                    (let session_id' = uuid4 w n;
                         rest = retry_loop w api_key flow_ids input_message stagger_delay
                                  max_retries retry_delay (attempt + 1) session_id' (Suc n)
                     in (begun @ [Attempt_failed attempt, Sleep (of_int retry_delay),
                                  Uuid4 session_id'] @ fst rest,
                         snd rest))
                else
                  (let rest = retry_loop w api_key flow_ids input_message stagger_delay
                                max_retries retry_delay (attempt + 1) session_id n
                   in (begun @ [Attempt_failed attempt] @ fst rest, snd rest)))
      else ([], Inl (Exception (exhausted_message flow_ids max_retries))))"
  by pat_completeness auto
termination
  by (relation "measure (\<lambda>(w, api_key, flow_ids, input_message, stagger_delay, max_retries,
                            retry_delay, attempt, session_id, n).
                   nat (max_retries + 1 - attempt))")
     simp_all

definition call_langflow_staggered_race ::
  "world \<Rightarrow> string \<Rightarrow> string list \<Rightarrow> string \<Rightarrow> int \<Rightarrow> int \<Rightarrow> int
   \<Rightarrow> effect list \<times> (pyexn + string \<times> string \<times> rat)" where
  "call_langflow_staggered_race w api_key flow_ids input_message stagger_delay max_retries
       retry_delay =
     (let session_id = uuid4 w 0;
          looped = retry_loop w api_key flow_ids input_message stagger_delay max_retries
                     retry_delay 1 session_id 1
      in (Uuid4 session_id # fst looped, snd looped))"

subsection \<open>Notions used in the statements\<close>

text \<open>
  The effects of the polls number \<open>j\<close> up to \<open>k - 1\<close> of a waiting worker when each
  finds the event unset: poll \<open>i\<close> happens \<open>i / 2\<close> seconds after the worker's start
  and is followed by a sleep of half a second.
\<close>

definition polls :: "nat \<Rightarrow> nat \<Rightarrow> effect list" where
  "polls j k = concat (map (\<lambda>i. [Is_set (of_nat i / 2) False, Sleep (1 / 2)]) [j..<k])"

text \<open>The rows \<^verbatim>\<open>all_results\<close> gets from a list of handled futures.\<close>

definition recorded :: "(future \<times> rat) list \<Rightarrow> result_row list" where
  "recorded cs = map make_row (filter (\<lambda>fu. \<not> out_cancelled (snd fu)) (map fst cs))"

fun is_post :: "effect \<Rightarrow> bool" where
  "is_post (Post rq) = True"
| "is_post e = False"

fun is_attempt :: "effect \<Rightarrow> bool" where
  "is_attempt (Attempt k sid) = True"
| "is_attempt e = False"

text \<open>
  Every backend call of an attempt fails or comes back empty: for each flow, sending
  the request of this attempt gives an outcome without success.
\<close>

definition all_calls_fail ::
  "world \<Rightarrow> string \<Rightarrow> string list \<Rightarrow> string \<Rightarrow> string \<Rightarrow> int \<Rightarrow> bool" where
  "all_calls_fail w api_key flow_ids input_message session_id attempt =
     list_all (\<lambda>flow_id.
                 \<not> out_success (snd (send_request (backend_at w attempt) api_key flow_id
                                        input_message session_id)))
              flow_ids"

text \<open>
  The effects of a race whose attempts \<open>a\<close> to \<open>max_retries\<close> all fail, from attempt
  \<open>a\<close> on. Attempt \<open>k\<close> runs under the \<open>k\<close>-th string drawn from \<^verbatim>\<open>uuid.uuid4\<close>.
\<close>

definition failed_attempts :: "world \<Rightarrow> int \<Rightarrow> int \<Rightarrow> int \<Rightarrow> effect list" where
  "failed_attempts w retry_delay max_retries a =
     concat (map (\<lambda>k. [Attempt k (uuid4 w (nat (k - 1))), Attempt_failed k]
                       @ (if k < max_retries
                          then [Sleep (of_int retry_delay), Uuid4 (uuid4 w (nat k))]
                          else []))
                 [a..max_retries])"

subsection \<open>Sample surroundings\<close>

text \<open>The JSON body in which a flow answers with the given text.\<close>

definition answer :: "string \<Rightarrow> json" where
  "answer message_text =
     JDict [(''outputs'',
       JList [JDict [(''outputs'',
         JList [JDict [(''results'',
           JDict [(''message'', JDict [(''text'', JStr message_text)])])]])]])]"

definition answering :: "string \<Rightarrow> backend" where
  "answering message_text rq = (2, Inr \<lparr>status_code = 200, body = Some (answer message_text)\<rparr>)"

definition timing_out :: backend where
  "timing_out rq = (30, Inl Timeout)"

text \<open>An event that is set \<open>s\<close> seconds after the worker's start and stays set.\<close>

definition set_from :: "rat \<Rightarrow> rat \<Rightarrow> bool" where
  "set_from s t = (s \<le> t)"

definition sample_uuid :: "nat \<Rightarrow> string" where
  "sample_uuid n = ''session-'' @ replicate n (CHR ''i'')"

text \<open>Three flows that all time out, in every attempt.\<close>

definition dead_world :: world where
  "dead_world =
     \<lparr>uuid4 = sample_uuid,
      time_time = (\<lambda>k. 0),
      as_completed = (\<lambda>k. [(0, 30), (1, 37), (2, 44)]),
      is_set_at = (\<lambda>k idx t. False),
      backend_at = (\<lambda>k. timing_out)\<rparr>"




text \<open>Finished futures: two successes and a failure.\<close>

definition early_future :: future where
  "early_future = ((''A'', 0), (True, ''A'', ''first'', 2, False))"

definition late_future :: future where
  "late_future = ((''B'', 7), (True, ''B'', ''second'', 1, False))"

definition failed_future :: future where
  "failed_future = ((''A'', 0), (False, ''A'', [], 2, False))"

section \<open>Properties of the parser and the worker\<close>

subsection \<open>The parser never raises\<close>

lemma getitem_raises:
  "getitem v k = Inl e \<Longrightarrow> e = KeyError \<or> e = IndexError \<or> e = TypeError"
  by (cases "(v, k)" rule: getitem.cases) (auto split: option.splits if_splits)

lemma getpath_raises:
  "getpath v ks = Inl e \<Longrightarrow> e = KeyError \<or> e = IndexError \<or> e = TypeError"
proof (induction ks arbitrary: v)
  case Nil
  then show ?case by simp
next
  case (Cons k ks)
  then show ?case
    by (auto split: sum.splits dest: getitem_raises)
qed

lemma extract_never_raises:
  "\<exists>text. extract_message_from_response response_data = Inr text"
proof (cases "getpath response_data message_path")
  case (Inl e)
  then show ?thesis
    using getpath_raises [OF Inl] by (auto simp: extract_message_from_response_def)
next
  case (Inr message_text)
  then show ?thesis by (simp add: extract_message_from_response_def)
qed

lemma try_body_cases:
  "(\<exists>e. try_body reply flow_id = Inl e)
   \<or> try_body reply flow_id = Inr (False, flow_id, [], fst reply, False)
   \<or> (\<exists>message. message \<noteq> [] \<and> try_body reply flow_id = Inr (True, flow_id, message, fst reply, False))"
  unfolding try_body_def
  by (auto split: sum.splits json.splits simp: Let_def)

lemma send_request_cases:
  "snd (send_request requests_post api_key flow_id input_message session_id)
     = (False, flow_id, [], fst (requests_post (make_request api_key flow_id input_message session_id)), False)
   \<or> (\<exists>message. message \<noteq> [] \<and> snd (send_request requests_post api_key flow_id input_message session_id)
     = (True, flow_id, message, fst (requests_post (make_request api_key flow_id input_message session_id)), False))"
  unfolding send_request_def Let_def
  using try_body_cases [of "requests_post (make_request api_key flow_id input_message session_id)" flow_id]
  by (auto split: sum.splits pyexn.splits)

lemma strip_empty_iff: "strip s = [] \<longleftrightarrow> (\<forall>c \<in> set s. isspace c)"
proof
  assume "strip s = []"
  then have all: "\<forall>x \<in> set (dropWhile isspace s). isspace x"
    unfolding strip_def by (simp add: dropWhile_eq_Nil_conv)
  have "dropWhile isspace s = []"
  proof (rule ccontr)
    assume ne: "dropWhile isspace s \<noteq> []"
    then have "\<not> isspace (hd (dropWhile isspace s))"
      by (rule hd_dropWhile)
    moreover have "hd (dropWhile isspace s) \<in> set (dropWhile isspace s)"
      using ne by (rule hd_in_set)
    ultimately show False using all by blast
  qed
  then show "\<forall>c \<in> set s. isspace c"
    by (simp add: dropWhile_eq_Nil_conv)
next
  assume "\<forall>c \<in> set s. isspace c"
  then have "dropWhile isspace s = []"
    by (simp add: dropWhile_eq_Nil_conv)
  then show "strip s = []"
    by (simp only: strip_def rev.simps dropWhile.simps)
qed

subsection \<open>The waiting loop\<close>

lemma half_less_iff: "(rat_of_nat j / 2 < rat_of_int d) \<longleftrightarrow> (int j < 2 * d)"
proof -
  have "(rat_of_nat j / 2 < rat_of_int d) \<longleftrightarrow> (rat_of_int (int j) < rat_of_int (2 * d))"
    by (simp add: field_simps)
  then show ?thesis
    by (simp only: of_int_less_iff)
qed

lemma half_step: "rat_of_nat j / 2 + 1 / 2 = rat_of_nat (Suc j) / 2"
  by (simp add: field_simps)

lemma half_min:
  assumes "int j < 2 * d"
  shows "min (1 / 2) (rat_of_int d - rat_of_nat j / 2) = 1 / 2"
proof -
  from assms have "int j + 1 \<le> 2 * d" by simp
  then have "rat_of_int (int j + 1) \<le> rat_of_int (2 * d)"
    by (simp only: of_int_le_iff)
  then have "1 / 2 \<le> rat_of_int d - rat_of_nat j / 2"
    by (simp add: field_simps)
  then show ?thesis by simp
qed

lemma polls_step: "j < k \<Longrightarrow> polls j k = Is_set (of_nat j / 2) False # Sleep (1 / 2) # polls (Suc j) k"
  by (simp add: polls_def upt_conv_Cons)

lemma polls_empty: "k \<le> j \<Longrightarrow> polls j k = []"
  by (simp add: polls_def)

lemma delay_loop_cancelled:
  assumes "int k < 2 * delay_seconds" and "is_set (of_nat k / 2)"
    and "\<forall>i<k. \<not> is_set (of_nat i / 2)" and "j \<le> k"
  shows "delay_loop (Some is_set) delay_seconds (of_nat j / 2) (of_nat j / 2)
         = (polls j k @ [Is_set (of_nat k / 2) True], True)"
  using assms(4)
proof (induction "k - j" arbitrary: j)
  case 0
  then have "j = k" by simp
  moreover have "rat_of_nat k / 2 < rat_of_int delay_seconds"
    using assms(1) by (simp only: half_less_iff)
  ultimately show ?case
    using assms(2) by (subst delay_loop.simps) (simp add: polls_empty)
next
  case (Suc m)
  then have jk: "j < k" by simp
  then have unset: "\<not> is_set (of_nat j / 2)" using assms(3) by simp
  have small: "int j < 2 * delay_seconds" using jk assms(1) by simp
  then have lt: "rat_of_nat j / 2 < rat_of_int delay_seconds"
    by (simp only: half_less_iff)
  have ih: "delay_loop (Some is_set) delay_seconds (of_nat (Suc j) / 2) (of_nat (Suc j) / 2)
            = (polls (Suc j) k @ [Is_set (of_nat k / 2) True], True)"
    using Suc.hyps(1) [of "Suc j"] Suc.hyps(2) jk by simp
  show ?case
    by (subst delay_loop.simps)
       (simp only: lt unset half_min [OF small] half_step ih polls_step [OF jk]
          if_True if_False option.case Let_def fst_conv snd_conv append_Cons)
qed

lemma delay_loop_elapsed:
  assumes "\<forall>i. int i < 2 * delay_seconds \<longrightarrow> \<not> is_set (of_nat i / 2)"
    and "int j \<le> 2 * delay_seconds"
  shows "delay_loop (Some is_set) delay_seconds (of_nat j / 2) (of_nat j / 2)
         = (polls j (nat (2 * delay_seconds)), False)"
  using assms(2)
proof (induction "nat (2 * delay_seconds) - j" arbitrary: j)
  case 0
  then have "int j = 2 * delay_seconds" by simp
  then have ge: "\<not> rat_of_nat j / 2 < rat_of_int delay_seconds"
    by (simp only: half_less_iff)
  have "nat (2 * delay_seconds) \<le> j" using 0 by simp
  then show ?case
    using ge by (subst delay_loop.simps) (simp add: polls_empty)
next
  case (Suc m)
  then have small: "int j < 2 * delay_seconds" by simp
  then have jk: "j < nat (2 * delay_seconds)" by simp
  have unset: "\<not> is_set (of_nat j / 2)" using assms(1) small by simp
  have lt: "rat_of_nat j / 2 < rat_of_int delay_seconds"
    using small by (simp only: half_less_iff)
  have ih: "delay_loop (Some is_set) delay_seconds (of_nat (Suc j) / 2) (of_nat (Suc j) / 2)
            = (polls (Suc j) (nat (2 * delay_seconds)), False)"
    using Suc.hyps(1) [of "Suc j"] Suc.hyps(2) small by simp
  show ?case
    by (subst delay_loop.simps)
       (simp only: lt unset half_min [OF small] half_step ih polls_step [OF jk]
          if_True if_False option.case Let_def fst_conv snd_conv append_Cons)
qed

lemma delay_loop_no_post: "\<not> list_ex is_post (fst (delay_loop winner_event delay_seconds waited now))"
proof (induction winner_event delay_seconds waited now rule: delay_loop.induct)
  case (1 winner_event delay_seconds waited now)
  show ?case
    using 1
    by (subst delay_loop.simps) (auto simp: Let_def split: option.splits)
qed

subsection \<open>Start of the worker\<close>

lemma polls_no_post: "\<not> list_ex is_post (polls j k)"
  by (simp add: polls_def list_ex_iff)

lemma worker_without_delay:
  "delay_seconds \<le> 0 \<Longrightarrow>
   call_single_flow_with_delay requests_post api_key flow_id input_message session_id
     delay_seconds winner_event
   = send_request requests_post api_key flow_id input_message session_id"
  by (simp add: call_single_flow_with_delay_def)

lemma send_request_effects:
  "fst (send_request requests_post api_key flow_id input_message session_id)
   = [Post (make_request api_key flow_id input_message session_id)]"
  by (simp add: send_request_def Let_def)

lemma send_request_not_cancelled:
  "\<not> out_cancelled (snd (send_request requests_post api_key flow_id input_message session_id))"
  using send_request_cases [of requests_post api_key flow_id input_message session_id]
  by (auto simp: out_cancelled_def)

text \<open>
  Claim C10. A worker whose delay is zero or negative never asks the event and sends
  its request exactly once: its effects are that one request, and its result is the
  same whatever event it is given, even one that is already set.
\<close>

theorem no_delay_invokes_once:
  assumes "delay_seconds \<le> 0"
  shows "fst (call_single_flow_with_delay requests_post api_key flow_id input_message session_id
                delay_seconds winner_event)
           = [Post (make_request api_key flow_id input_message session_id)]
         \<and> call_single_flow_with_delay requests_post api_key flow_id input_message session_id
                delay_seconds winner_event
           = call_single_flow_with_delay requests_post api_key flow_id input_message session_id
                delay_seconds None
         \<and> \<not> out_cancelled (snd (call_single_flow_with_delay requests_post api_key flow_id
                                     input_message session_id delay_seconds winner_event))"
  using assms
  by (simp add: worker_without_delay send_request_effects send_request_not_cancelled)

theorem no_delay_invokes_once_witness:
  "(0::int) \<le> 0
   \<and> (fst (call_single_flow_with_delay (answering ''hello'') ''key'' ''A'' ''q'' ''s'' 0
             (Some (set_from 0)))
        = [Post (make_request ''key'' ''A'' ''q'' ''s'')]
      \<and> call_single_flow_with_delay (answering ''hello'') ''key'' ''A'' ''q'' ''s'' 0
             (Some (set_from 0))
        = call_single_flow_with_delay (answering ''hello'') ''key'' ''A'' ''q'' ''s'' 0 None
      \<and> \<not> out_cancelled
            (snd (call_single_flow_with_delay (answering ''hello'') ''key'' ''A'' ''q'' ''s'' 0
                    (Some (set_from 0)))))"
proof -
  have h: "(0::int) \<le> 0" by simp
  from h no_delay_invokes_once [OF h] show ?thesis by (rule conjI)
qed

lemma worker_cancelled:
  assumes "int k < 2 * delay_seconds" and "is_set (of_nat k / 2)"
    and "\<forall>i<k. \<not> is_set (of_nat i / 2)"
  shows "call_single_flow_with_delay requests_post api_key flow_id input_message session_id
           delay_seconds (Some is_set)
         = (polls 0 k @ [Is_set (of_nat k / 2) True], (False, flow_id, [], 0, True))"
proof -
  have pos: "0 < delay_seconds" using assms(1) by simp
  have "delay_loop (Some is_set) delay_seconds 0 0 = (polls 0 k @ [Is_set (of_nat k / 2) True], True)"
    using delay_loop_cancelled [OF assms, of 0] by simp
  then show ?thesis
    using pos by (simp add: call_single_flow_with_delay_def)
qed

lemma worker_not_cancelled:
  assumes "0 < delay_seconds"
    and "\<forall>i. int i < 2 * delay_seconds \<longrightarrow> \<not> is_set (of_nat i / 2)"
  shows "call_single_flow_with_delay requests_post api_key flow_id input_message session_id
           delay_seconds (Some is_set)
         = (polls 0 (nat (2 * delay_seconds))
              @ [Post (make_request api_key flow_id input_message session_id)],
            snd (send_request requests_post api_key flow_id input_message session_id))"
proof -
  have "delay_loop (Some is_set) delay_seconds 0 0 = (polls 0 (nat (2 * delay_seconds)), False)"
    using delay_loop_elapsed [OF assms(2), of 0] assms(1) by simp
  then show ?thesis
    using assms(1) by (simp add: call_single_flow_with_delay_def send_request_effects)
qed

text \<open>
  What the polls do guarantee. A waiting worker asks the event every half second,
  at \<open>0\<close>, \<open>0.5\<close>, \<open>1\<close>, ... seconds, as long as the waited time is below its delay.
  At the first of these polls that finds the event set it returns the cancelled
  outcome with an empty message, having sent nothing.
\<close>

theorem seen_signal_cancels:
  assumes "int k < 2 * delay_seconds" and "is_set (of_nat k / 2)"
    and "\<forall>i<k. \<not> is_set (of_nat i / 2)"
  shows "call_single_flow_with_delay requests_post api_key flow_id input_message session_id
           delay_seconds (Some is_set)
         = (polls 0 k @ [Is_set (of_nat k / 2) True], (False, flow_id, [], 0, True))
       \<and> \<not> list_ex is_post
             (fst (call_single_flow_with_delay requests_post api_key flow_id input_message
                     session_id delay_seconds (Some is_set)))"
  using worker_cancelled [OF assms] by (simp add: polls_no_post)

theorem seen_signal_cancels_witness:
  "int 2 < 2 * 7 \<and> set_from (3 / 4) (of_nat 2 / 2)
   \<and> \<not> set_from (3 / 4) (of_nat 0 / 2) \<and> \<not> set_from (3 / 4) (of_nat 1 / 2)
   \<and> call_single_flow_with_delay (answering ''hello'') ''key'' ''B'' ''q'' ''s'' 7
        (Some (set_from (3 / 4)))
     = ([Is_set 0 False, Sleep (1 / 2), Is_set (1 / 2) False, Sleep (1 / 2), Is_set 1 True],
        (False, ''B'', [], 0, True))"
proof -
  have unset: "\<forall>i<2. \<not> set_from (3 / 4) (of_nat i / 2)"
    by (simp add: set_from_def less_Suc_eq numeral_2_eq_2)
  have seen: "set_from (3 / 4) (of_nat 2 / 2)"
    by (simp add: set_from_def)
  have first: "\<not> set_from (3 / 4) (of_nat 0 / 2)" and second: "\<not> set_from (3 / 4) (of_nat 1 / 2)"
    by (simp_all add: set_from_def)
  show ?thesis
    using seen_signal_cancels [of 2 7 "set_from (3 / 4)", OF _ seen unset] seen first second
    by (simp add: polls_def numeral_2_eq_2)
qed

lemma unset_before:
  assumes "int i < m" and "rat_of_int m - 1 < 2 * s"
  shows "\<not> set_from s (of_nat i / 2)"
proof -
  have "int i \<le> m - 1" using assms(1) by simp
  then have "rat_of_int (int i) \<le> rat_of_int (m - 1)"
    by (simp only: of_int_le_iff)
  then have "rat_of_nat i < 2 * s" using assms(2) by simp
  then show ?thesis by (simp add: set_from_def field_simps)
qed

text \<open>
  Claim C2 says that a worker whose delay has not elapsed when the event is set never
  sends its request. The code does not keep this for an event set after the last poll:
  the loop asks the event before each sleep and not after the last one. With a delay
  of one second the worker polls at \<open>0\<close> and \<open>0.5\<close> seconds; an event set at \<open>0.75\<close>
  seconds, before the delay has elapsed, is not seen, and the request is sent.
\<close>

theorem late_signal_counterexample:
  "set_from (3 / 4) (3 / 4) \<and> (3 / 4 :: rat) < of_int 1
   \<and> list_ex is_post
       (fst (call_single_flow_with_delay (answering ''hello'') ''key'' ''B'' ''q'' ''s'' 1
               (Some (set_from (3 / 4)))))
   \<and> \<not> out_cancelled
       (snd (call_single_flow_with_delay (answering ''hello'') ''key'' ''B'' ''q'' ''s'' 1
               (Some (set_from (3 / 4)))))"
proof -
  have "i = 0 \<or> i = 1" if "int i < 2 * 1" for i :: nat
    using that by auto
  then have unset: "\<forall>i. int i < 2 * 1 \<longrightarrow> \<not> set_from (3 / 4) (of_nat i / 2)"
    by (auto simp: set_from_def)
  show ?thesis
    using worker_not_cancelled [of 1 "set_from (3 / 4)", OF _ unset]
    by (simp add: set_from_def send_request_not_cancelled)
qed

text \<open>
  The same at the default delay of the second flow, seven seconds, with the event set
  6.75 seconds after the start.
\<close>

lemma late_signal_default_delay:
  "set_from (27 / 4) (27 / 4) \<and> (27 / 4 :: rat) < of_int 7
   \<and> list_ex is_post
       (fst (call_single_flow_with_delay (answering ''hello'') ''key'' ''B'' ''q'' ''s'' 7
               (Some (set_from (27 / 4)))))
   \<and> \<not> out_cancelled
       (snd (call_single_flow_with_delay (answering ''hello'') ''key'' ''B'' ''q'' ''s'' 7
               (Some (set_from (27 / 4)))))"
proof -
  have unset: "\<forall>i. int i < 2 * 7 \<longrightarrow> \<not> set_from (27 / 4) (of_nat i / 2)"
  proof (intro allI impI)
    fix i :: nat
    assume "int i < 2 * 7"
    then show "\<not> set_from (27 / 4) (of_nat i / 2)"
      by (rule unset_before) simp
  qed
  show ?thesis
    using worker_not_cancelled [of 7 "set_from (27 / 4)", OF _ unset]
    by (simp add: set_from_def send_request_not_cancelled)
qed

section \<open>Properties of the scheduler\<close>

subsection \<open>The schedule of delays\<close>

lemma submit_all_length:
  "length (submit_all w api_key flow_ids input_message session_id stagger_delay attempt)
   = length flow_ids"
  by (simp add: submit_all_def)

lemma submit_all_nth:
  assumes "i < length flow_ids"
  shows "submit_all w api_key flow_ids input_message session_id stagger_delay attempt ! i
         = ((flow_ids ! i, int i * stagger_delay),
            snd (call_single_flow_with_delay (backend_at w attempt) api_key (flow_ids ! i)
                   input_message session_id (int i * stagger_delay)
                   (Some (is_set_at w attempt i))))"
  using assms by (simp add: submit_all_def nth_enumerate_eq Let_def)

text \<open>
  Claim C3, as the code has it. The worker at position \<open>i\<close> (counted from zero) is
  submitted with the delay \<open>i * stagger_delay\<close>, so the first one has delay zero; the
  schedule depends on nothing but the list and the interval, whatever the surroundings
  do; and it is strictly increasing when the interval is positive.
\<close>

theorem stagger_schedule:
  "length (submit_all w api_key flow_ids input_message session_id stagger_delay attempt)
     = length flow_ids
   \<and> (\<forall>i. i < length flow_ids \<longrightarrow>
          fst (submit_all w api_key flow_ids input_message session_id stagger_delay attempt ! i)
          = (flow_ids ! i, int i * stagger_delay))
   \<and> (flow_ids \<noteq> [] \<longrightarrow>
          snd (fst (submit_all w api_key flow_ids input_message session_id stagger_delay
                      attempt ! 0)) = 0)
   \<and> (0 < stagger_delay \<longrightarrow>
        (\<forall>i j. i < j \<and> j < length flow_ids \<longrightarrow>
           snd (fst (submit_all w api_key flow_ids input_message session_id stagger_delay
                       attempt ! i))
           < snd (fst (submit_all w api_key flow_ids input_message session_id stagger_delay
                         attempt ! j))))
   \<and> map fst (submit_all w api_key flow_ids input_message session_id stagger_delay attempt)
     = map fst (submit_all w' api_key' flow_ids input_message' session_id' stagger_delay attempt')"
proof (intro conjI allI impI)
  show "length (submit_all w api_key flow_ids input_message session_id stagger_delay attempt)
        = length flow_ids"
    by (rule submit_all_length)
next
  fix i assume "i < length flow_ids"
  then show "fst (submit_all w api_key flow_ids input_message session_id stagger_delay attempt ! i)
             = (flow_ids ! i, int i * stagger_delay)"
    by (simp add: submit_all_nth)
next
  assume "flow_ids \<noteq> []"
  then have "0 < length flow_ids" by simp
  then show "snd (fst (submit_all w api_key flow_ids input_message session_id stagger_delay
                         attempt ! 0)) = 0"
    by (simp add: submit_all_nth)
next
  fix i j assume pos: "0 < stagger_delay" and ij: "i < j \<and> j < length flow_ids"
  then have "int i * stagger_delay < int j * stagger_delay" by simp
  with ij show "snd (fst (submit_all w api_key flow_ids input_message session_id stagger_delay
                       attempt ! i))
           < snd (fst (submit_all w api_key flow_ids input_message session_id stagger_delay
                         attempt ! j))"
    by (simp add: submit_all_nth)
next
  show "map fst (submit_all w api_key flow_ids input_message session_id stagger_delay attempt)
     = map fst (submit_all w' api_key' flow_ids input_message' session_id' stagger_delay attempt')"
    by (simp add: submit_all_def Let_def case_prod_unfold)
qed

theorem stagger_schedule_witness:
  "map (\<lambda>fu. snd (fst fu)) (submit_all dead_world ''key'' FLOW_IDS ''q'' ''s'' 7 1) = [0, 7, 14]
   \<and> FLOW_IDS \<noteq> [] \<and> (0::int) < 7 \<and> (1::nat) < 2 \<and> 2 < length FLOW_IDS
   \<and> snd (fst (submit_all dead_world ''key'' FLOW_IDS ''q'' ''s'' 7 1 ! 1))
     < snd (fst (submit_all dead_world ''key'' FLOW_IDS ''q'' ''s'' 7 1 ! 2))"
proof -
  have len: "length FLOW_IDS = 3" by (simp add: FLOW_IDS_def)
  have sched: "\<forall>i. i < length FLOW_IDS \<longrightarrow>
          fst (submit_all dead_world ''key'' FLOW_IDS ''q'' ''s'' 7 1 ! i)
          = (FLOW_IDS ! i, int i * 7)"
    and incr: "(0::int) < 7 \<longrightarrow>
        (\<forall>i j. i < j \<and> j < length FLOW_IDS \<longrightarrow>
           snd (fst (submit_all dead_world ''key'' FLOW_IDS ''q'' ''s'' 7 1 ! i))
           < snd (fst (submit_all dead_world ''key'' FLOW_IDS ''q'' ''s'' 7 1 ! j)))"
    and n: "length (submit_all dead_world ''key'' FLOW_IDS ''q'' ''s'' 7 1) = length FLOW_IDS"
    using stagger_schedule [of dead_world "''key''" FLOW_IDS "''q''" "''s''" 7 1]
    by blast+
  have "map (\<lambda>fu. snd (fst fu)) (submit_all dead_world ''key'' FLOW_IDS ''q'' ''s'' 7 1) = [0, 7, 14]"
    using sched n len by (simp add: list_eq_iff_nth_eq less_Suc_eq numeral_3_eq_3)
  moreover have "snd (fst (submit_all dead_world ''key'' FLOW_IDS ''q'' ''s'' 7 1 ! 1))
     < snd (fst (submit_all dead_world ''key'' FLOW_IDS ''q'' ''s'' 7 1 ! 2))"
    using incr len by simp
  moreover have "FLOW_IDS \<noteq> []" by (simp add: FLOW_IDS_def)
  ultimately show ?thesis using len by simp
qed

text \<open>
  With an interval of zero, which the configuration dialogue accepts, the first two
  delays are equal: the schedule is not strictly increasing.
\<close>

theorem zero_stagger_counterexample:
  "\<not> snd (fst (submit_all dead_world ''key'' FLOW_IDS ''q'' ''s'' 0 1 ! 0))
     < snd (fst (submit_all dead_world ''key'' FLOW_IDS ''q'' ''s'' 0 1 ! 1))"
proof -
  have "length FLOW_IDS = 3" by (simp add: FLOW_IDS_def)
  then show ?thesis by (simp add: submit_all_nth)
qed

subsection \<open>The loop over finished futures\<close>

lemma recorded_Nil: "recorded [] = []"
  by (simp add: recorded_def)

lemma recorded_Cons:
  "recorded ((fu, t) # cs) = (if out_cancelled (snd fu) then recorded cs else make_row fu # recorded cs)"
  by (simp add: recorded_def)

lemma recorded_append: "recorded (xs @ ys) = recorded xs @ recorded ys"
  by (simp add: recorded_def)

lemma for_as_completed_no_success:
  "\<forall>c \<in> set cs. out_cancelled (snd (fst c)) \<or> \<not> out_success (snd (fst c)) \<Longrightarrow>
   for_as_completed overall_start cs st
   = (st\<lparr>st_all_results := st_all_results st @ recorded cs\<rparr>, None)"
proof (induction cs arbitrary: st)
  case Nil
  show ?case by (simp add: recorded_Nil)
next
  case (Cons c cs)
  obtain flow_id0 delay success flow_id message elapsed cancelled t
    where c: "c = (((flow_id0, delay), (success, flow_id, message, elapsed, cancelled)), t)"
    by (metis prod.exhaust)
  from Cons.prems have rest: "\<forall>c \<in> set cs. out_cancelled (snd (fst c)) \<or> \<not> out_success (snd (fst c))"
    and this_one: "cancelled \<or> \<not> success"
    by (simp_all add: c out_cancelled_def out_success_def)
  show ?case
  proof (cases cancelled)
    case True
    then show ?thesis
      using Cons.IH [OF rest] by (simp add: c recorded_Cons out_cancelled_def)
  next
    case False
    with this_one have "\<not> success" by simp
    with False show ?thesis
      using Cons.IH [OF rest] by (simp add: c recorded_Cons out_cancelled_def)
  qed
qed

lemma for_as_completed_first_success:
  assumes "\<forall>c \<in> set before. out_cancelled (snd (fst c)) \<or> \<not> out_success (snd (fst c))"
    and "\<not> st_winner_found st"
  shows "for_as_completed overall_start
           (before @ (((flow_id0, delay), (True, flow_id, message, elapsed, False)), t) # rest) st
         = (st\<lparr>st_all_results := st_all_results st @ recorded before
                   @ [make_row ((flow_id0, delay), (True, flow_id, message, elapsed, False))],
               st_winner_found := True, st_event_flag := True,
               st_effects := st_effects st @ [Event_set, Sleep (1 / 2)]\<rparr>,
            Some (message, flow_id, t - overall_start))"
  using assms
proof (induction before arbitrary: st)
  case Nil
  then show ?case by (simp add: recorded_Nil)
next
  case (Cons c cs)
  obtain f0 d0 success0 f1 m0 e0 cancelled0 t0
    where c: "c = (((f0, d0), (success0, f1, m0, e0, cancelled0)), t0)"
    by (metis prod.exhaust)
  from Cons.prems have rest: "\<forall>c \<in> set cs. out_cancelled (snd (fst c)) \<or> \<not> out_success (snd (fst c))"
    and this_one: "cancelled0 \<or> \<not> success0"
    by (simp_all add: c out_cancelled_def out_success_def)
  show ?case
  proof (cases cancelled0)
    case True
    then show ?thesis
      using Cons.IH [OF rest Cons.prems(2)] by (simp add: c recorded_Cons out_cancelled_def)
  next
    case False
    with this_one have ns: "\<not> success0" by simp
    have nf: "\<not> st_winner_found (st\<lparr>st_all_results := st_all_results st @ [make_row (fst c)]\<rparr>)"
      using Cons.prems(2) by simp
    show ?thesis
      using Cons.IH [OF rest nf] False ns by (simp add: c recorded_Cons out_cancelled_def)
  qed
qed

lemma for_as_completed_flag_kept:
  "st_event_flag st \<Longrightarrow> st_event_flag (fst (for_as_completed overall_start cs st))"
proof (induction cs arbitrary: st)
  case Nil
  then show ?case by simp
next
  case (Cons c cs)
  obtain f0 d0 success0 f1 m0 e0 cancelled0 t0
    where c: "c = (((f0, d0), (success0, f1, m0, e0, cancelled0)), t0)"
    by (metis prod.exhaust)
  show ?case
    using Cons.prems Cons.IH by (simp add: c Let_def)
qed

lemma for_as_completed_effects:
  assumes "\<not> st_winner_found st"
  shows "(snd (for_as_completed overall_start cs st) = None
          \<and> st_effects (fst (for_as_completed overall_start cs st)) = st_effects st
          \<and> st_event_flag (fst (for_as_completed overall_start cs st)) = st_event_flag st)
       \<or> (snd (for_as_completed overall_start cs st) \<noteq> None
          \<and> st_effects (fst (for_as_completed overall_start cs st))
              = st_effects st @ [Event_set, Sleep (1 / 2)]
          \<and> st_event_flag (fst (for_as_completed overall_start cs st)))"
  using assms
proof (induction cs arbitrary: st)
  case Nil
  then show ?case by simp
next
  case (Cons c cs)
  obtain f0 d0 success0 f1 m0 e0 cancelled0 t0
    where c: "c = (((f0, d0), (success0, f1, m0, e0, cancelled0)), t0)"
    by (metis prod.exhaust)
  let ?st1 = "st\<lparr>st_all_results := st_all_results st @ [make_row (fst c)]\<rparr>"
  have nf: "\<not> st_winner_found ?st1"
    using Cons.prems by simp
  show ?case
  proof (cases cancelled0)
    case True
    then have "for_as_completed overall_start (c # cs) st = for_as_completed overall_start cs st"
      by (simp add: c)
    then show ?thesis
      using Cons.IH [OF Cons.prems] by simp
  next
    case False
    show ?thesis
    proof (cases success0)
      case True
      with False Cons.prems show ?thesis
        by (simp add: c Let_def)
    next
      case no: False
      with False have "for_as_completed overall_start (c # cs) st
                       = for_as_completed overall_start cs ?st1"
        by (simp add: c Let_def)
      then show ?thesis
        using Cons.IH [OF nf] by simp
    qed
  qed
qed

lemma fresh_attempt_simps:
  "st_all_results fresh_attempt = []" "\<not> st_winner_found fresh_attempt"
  "\<not> st_event_flag fresh_attempt" "st_effects fresh_attempt = []"
  by (simp_all add: fresh_attempt_def)

lemma first_success_from_fresh:
  assumes "\<forall>c \<in> set before. out_cancelled (snd (fst c)) \<or> \<not> out_success (snd (fst c))"
  shows "for_as_completed overall_start
           (before @ (((flow_id0, delay), (True, flow_id, message, elapsed, False)), t) # rest)
           fresh_attempt
         = (\<lparr>st_all_results = recorded before
                 @ [make_row ((flow_id0, delay), (True, flow_id, message, elapsed, False))],
             st_winner_found = True, st_event_flag = True,
             st_effects = [Event_set, Sleep (1 / 2)], st_left_at = None\<rparr>,
            Some (message, flow_id, t - overall_start))"
  using for_as_completed_first_success [OF assms, of fresh_attempt]
  by (simp add: fresh_attempt_def)

lemma no_success_from_fresh:
  assumes "\<forall>c \<in> set cs. out_cancelled (snd (fst c)) \<or> \<not> out_success (snd (fst c))"
  shows "for_as_completed overall_start cs fresh_attempt
         = (\<lparr>st_all_results = recorded cs, st_winner_found = False, st_event_flag = False,
             st_effects = [], st_left_at = None\<rparr>, None)"
  using for_as_completed_no_success [OF assms, of overall_start fresh_attempt]
  by (simp add: fresh_attempt_def)

lemma event_set_at_most_once:
  "length (filter (\<lambda>e. e = Event_set)
     (st_effects (fst (for_as_completed overall_start cs fresh_attempt)))) \<le> 1"
  using for_as_completed_effects [of fresh_attempt overall_start cs]
  by (auto simp: fresh_attempt_simps)

lemma flag_iff_winner:
  "st_event_flag (fst (for_as_completed overall_start cs fresh_attempt))
   \<longleftrightarrow> snd (for_as_completed overall_start cs fresh_attempt) \<noteq> None"
  using for_as_completed_effects [of fresh_attempt overall_start cs]
  by (auto simp: fresh_attempt_simps)

lemma winner_iff_success:
  "snd (for_as_completed overall_start cs fresh_attempt) \<noteq> None
   \<longleftrightarrow> (\<exists>c \<in> set cs. \<not> out_cancelled (snd (fst c)) \<and> out_success (snd (fst c)))"
proof (cases "\<exists>c \<in> set cs. \<not> out_cancelled (snd (fst c)) \<and> out_success (snd (fst c))")
  case True
  then obtain before c rest where split: "cs = before @ c # rest"
    and c: "\<not> out_cancelled (snd (fst c)) \<and> out_success (snd (fst c))"
    and before: "\<forall>b \<in> set before. \<not> (\<not> out_cancelled (snd (fst b)) \<and> out_success (snd (fst b)))"
    using split_list_first_prop [of cs "\<lambda>c. \<not> out_cancelled (snd (fst c)) \<and> out_success (snd (fst c))"]
    by blast
  obtain flow_id0 delay success flow_id message elapsed cancelled t
    where "c = (((flow_id0, delay), (success, flow_id, message, elapsed, cancelled)), t)"
    by (metis prod.exhaust)
  with c have c': "c = (((flow_id0, delay), (True, flow_id, message, elapsed, False)), t)"
    by (simp add: out_cancelled_def out_success_def)
  have "\<forall>b \<in> set before. out_cancelled (snd (fst b)) \<or> \<not> out_success (snd (fst b))"
    using before by blast
  from first_success_from_fresh [OF this] True show ?thesis
    unfolding split c' by simp
next
  case False
  then have "\<forall>c \<in> set cs. out_cancelled (snd (fst c)) \<or> \<not> out_success (snd (fst c))"
    by blast
  from no_success_from_fresh [OF this] False show ?thesis by simp
qed

text \<open>
  Claim C4, as the code has it. After the first success that was not cancelled, the
  scheduler leaves the loop: whatever completes later, a second success included, has
  no influence on the returned triple, which is the first success's, and gets no row
  in \<^verbatim>\<open>all_results\<close>.
\<close>

theorem only_first_success_surfaces:
  assumes "\<forall>c \<in> set before. out_cancelled (snd (fst c)) \<or> \<not> out_success (snd (fst c))"
  shows "for_as_completed overall_start
           (before @ (((flow_id0, delay), (True, flow_id, message, elapsed, False)), t) # later)
           fresh_attempt
         = for_as_completed overall_start
             (before @ [(((flow_id0, delay), (True, flow_id, message, elapsed, False)), t)])
             fresh_attempt
       \<and> snd (for_as_completed overall_start
                (before @ (((flow_id0, delay), (True, flow_id, message, elapsed, False)), t) # later)
                fresh_attempt)
         = Some (message, flow_id, t - overall_start)
       \<and> st_all_results (fst (for_as_completed overall_start
                (before @ (((flow_id0, delay), (True, flow_id, message, elapsed, False)), t) # later)
                fresh_attempt))
         = recorded before
             @ [make_row ((flow_id0, delay), (True, flow_id, message, elapsed, False))]"
  using first_success_from_fresh [OF assms, of overall_start flow_id0 delay flow_id message elapsed t later]
    first_success_from_fresh [OF assms, of overall_start flow_id0 delay flow_id message elapsed t "[]"]
  by simp

theorem only_first_success_surfaces_witness:
  "\<not> out_success (snd failed_future)
   \<and> snd (for_as_completed 100
            [(failed_future, 102), (((''B'', 7), (True, ''B'', ''second'', 1, False)), 108),
             (early_future, 109)] fresh_attempt)
     = Some (''second'', ''B'', 8)
   \<and> st_all_results (fst (for_as_completed 100
            [(failed_future, 102), (((''B'', 7), (True, ''B'', ''second'', 1, False)), 108),
             (early_future, 109)] fresh_attempt))
     = [make_row failed_future, make_row ((''B'', 7), (True, ''B'', ''second'', 1, False))]"
proof -
  have lose: "\<forall>c \<in> set [(failed_future, 102::rat)].
                out_cancelled (snd (fst c)) \<or> \<not> out_success (snd (fst c))"
    by (simp add: failed_future_def out_success_def)
  show ?thesis
    using only_first_success_surfaces [OF lose, of 100 "''B''" 7 "''B''" "''second''" 1 108
        "[(early_future, 109)]"]
    by (simp add: recorded_def failed_future_def out_cancelled_def out_success_def
          fresh_attempt_def)
qed

text \<open>
  The claim as stated fails where it says that the later success is recorded: with two
  successes the second has no row in \<^verbatim>\<open>all_results\<close>.
\<close>

theorem late_success_counterexample:
  "out_success (snd late_future) \<and> \<not> out_cancelled (snd late_future)
   \<and> snd (for_as_completed 100 [(early_future, 102), (late_future, 108)] fresh_attempt)
     = Some (''first'', ''A'', 2)
   \<and> make_row late_future
       \<notin> set (st_all_results
                (fst (for_as_completed 100 [(early_future, 102), (late_future, 108)]
                        fresh_attempt)))"
  by (simp add: early_future_def late_future_def fresh_attempt_def make_row_def
        out_success_def out_cancelled_def)

lemma run_attempt_loop:
  "snd (run_attempt w api_key flow_ids input_message session_id stagger_delay attempt)
   = snd (for_as_completed (time_time w attempt)
            (handed w api_key flow_ids input_message session_id stagger_delay attempt)
            fresh_attempt)"
  "st_effects (fst (run_attempt w api_key flow_ids input_message session_id stagger_delay
                      attempt))
   = st_effects (fst (for_as_completed (time_time w attempt)
            (handed w api_key flow_ids input_message session_id stagger_delay attempt)
            fresh_attempt))"
  "st_event_flag (fst (run_attempt w api_key flow_ids input_message session_id stagger_delay
                         attempt))
   = st_event_flag (fst (for_as_completed (time_time w attempt)
            (handed w api_key flow_ids input_message session_id stagger_delay attempt)
            fresh_attempt))"
  "st_all_results (fst (run_attempt w api_key flow_ids input_message session_id stagger_delay
                          attempt))
   = st_all_results (fst (for_as_completed (time_time w attempt)
            (handed w api_key flow_ids input_message session_id stagger_delay attempt)
            fresh_attempt))"
  by (simp_all add: run_attempt_def Let_def)

lemma delay_loop_no_set:
  "Event_set \<notin> set (fst (delay_loop winner_event delay_seconds waited now))"
proof (induction winner_event delay_seconds waited now rule: delay_loop.induct)
  case (1 winner_event delay_seconds waited now)
  show ?case
    using 1
    by (subst delay_loop.simps) (auto simp: Let_def split: option.splits)
qed

lemma worker_no_set:
  "Event_set \<notin> set (fst (call_single_flow_with_delay requests_post api_key flow_id
                            input_message session_id delay_seconds winner_event))"
  using delay_loop_no_set [of winner_event delay_seconds 0 0]
  by (simp add: call_single_flow_with_delay_def Let_def send_request_effects
        del: delay_loop.simps)

text \<open>
  Claim C7. The event of an attempt starts unset. At the end of the scheduler's loop
  it is set exactly when a winner is returned, which is exactly when some handled
  future is a success that was not cancelled. The scheduler sets it at most once. A
  set event stays set through any further run of the loop. The effects of a worker
  never contain a \<^verbatim>\<open>winner_event.set()\<close>: a worker only reads the event.
\<close>

theorem winner_signal_discipline:
  "\<not> st_event_flag fresh_attempt
   \<and> (st_event_flag (fst (run_attempt w api_key flow_ids input_message session_id
                            stagger_delay attempt))
      \<longleftrightarrow> snd (run_attempt w api_key flow_ids input_message session_id stagger_delay attempt)
          \<noteq> None)
   \<and> (st_event_flag (fst (for_as_completed overall_start cs fresh_attempt))
      \<longleftrightarrow> (\<exists>c \<in> set cs. \<not> out_cancelled (snd (fst c)) \<and> out_success (snd (fst c))))
   \<and> length (filter (\<lambda>e. e = Event_set)
        (st_effects (fst (run_attempt w api_key flow_ids input_message session_id
                            stagger_delay attempt)))) \<le> 1
   \<and> (st_event_flag st \<longrightarrow> st_event_flag (fst (for_as_completed overall_start cs st)))
   \<and> Event_set \<notin> set (fst (call_single_flow_with_delay requests_post api_key flow_id
                               input_message session_id delay_seconds winner_event))"
proof (intro conjI impI)
  show "\<not> st_event_flag fresh_attempt"
    by (simp add: fresh_attempt_def)
next
  show "st_event_flag (fst (run_attempt w api_key flow_ids input_message session_id
                            stagger_delay attempt))
      \<longleftrightarrow> snd (run_attempt w api_key flow_ids input_message session_id stagger_delay attempt)
          \<noteq> None"
    unfolding run_attempt_loop by (rule flag_iff_winner)
next
  show "st_event_flag (fst (for_as_completed overall_start cs fresh_attempt))
      \<longleftrightarrow> (\<exists>c \<in> set cs. \<not> out_cancelled (snd (fst c)) \<and> out_success (snd (fst c)))"
    using flag_iff_winner [of overall_start cs] winner_iff_success [of overall_start cs]
    by simp
next
  show "length (filter (\<lambda>e. e = Event_set)
        (st_effects (fst (run_attempt w api_key flow_ids input_message session_id
                            stagger_delay attempt)))) \<le> 1"
    unfolding run_attempt_loop by (rule event_set_at_most_once)
next
  assume "st_event_flag st"
  then show "st_event_flag (fst (for_as_completed overall_start cs st))"
    by (rule for_as_completed_flag_kept)
next
  show "Event_set \<notin> set (fst (call_single_flow_with_delay requests_post api_key flow_id
                               input_message session_id delay_seconds winner_event))"
    by (rule worker_no_set)
qed

theorem winner_signal_discipline_witness:
  "st_event_flag (fst (for_as_completed 100 [(early_future, 102)] fresh_attempt))
   \<and> st_event_flag (fst (for_as_completed 100 [(failed_future, 103), (late_future, 108)]
                          (fst (for_as_completed 100 [(early_future, 102)] fresh_attempt))))
   \<and> \<not> out_cancelled (snd (fst (early_future, 102::rat)))
   \<and> out_success (snd (fst (early_future, 102::rat)))"
proof -
  have win: "\<exists>c \<in> set [(early_future, 102::rat)].
               \<not> out_cancelled (snd (fst c)) \<and> out_success (snd (fst c))"
    by (simp add: early_future_def out_cancelled_def out_success_def)
  have flag: "st_event_flag (fst (for_as_completed 100 [(early_future, 102)] fresh_attempt))"
    using winner_signal_discipline [where overall_start = 100 and cs = "[(early_future, 102)]"]
      win
    by blast
  have "st_event_flag (fst (for_as_completed 100 [(failed_future, 103), (late_future, 108)]
                          (fst (for_as_completed 100 [(early_future, 102)] fresh_attempt))))"
    using winner_signal_discipline [where overall_start = 100
        and cs = "[(failed_future, 103), (late_future, 108)]"
        and st = "fst (for_as_completed 100 [(early_future, 102)] fresh_attempt)"]
      flag
    by blast
  with flag win show ?thesis by simp
qed

section \<open>Properties of the retry loop\<close>

subsection \<open>A failed attempt\<close>

text \<open>The equation of the retry loop is unfolded by hand, one attempt at a time.\<close>

declare retry_loop.simps [simp del]

lemma worker_outcome:
  "snd (call_single_flow_with_delay requests_post api_key flow_id input_message session_id
          delay_seconds winner_event) = (False, flow_id, [], 0, True)
   \<or> snd (call_single_flow_with_delay requests_post api_key flow_id input_message session_id
          delay_seconds winner_event)
     = snd (send_request requests_post api_key flow_id input_message session_id)"
  by (simp add: call_single_flow_with_delay_def Let_def del: delay_loop.simps)

lemma submit_all_lose:
  assumes "all_calls_fail w api_key flow_ids input_message session_id attempt"
    and "fu \<in> set (submit_all w api_key flow_ids input_message session_id stagger_delay attempt)"
  shows "out_cancelled (snd fu) \<or> \<not> out_success (snd fu)"
proof -
  from assms(2) obtain i where i: "i < length flow_ids"
    and fu: "fu = submit_all w api_key flow_ids input_message session_id stagger_delay attempt ! i"
    by (auto simp: in_set_conv_nth submit_all_length)
  have "flow_ids ! i \<in> set flow_ids" using i by simp
  with assms(1) have fail: "\<not> out_success (snd (send_request (backend_at w attempt) api_key
      (flow_ids ! i) input_message session_id))"
    by (simp add: all_calls_fail_def list_all_iff)
  show ?thesis
    using worker_outcome [of "backend_at w attempt" api_key "flow_ids ! i" input_message
        session_id "int i * stagger_delay" "Some (is_set_at w attempt i)"] fail
    by (auto simp: fu submit_all_nth [OF i] out_cancelled_def)
qed

lemma run_attempt_all_fail:
  assumes "all_calls_fail w api_key flow_ids input_message session_id attempt"
  shows "snd (run_attempt w api_key flow_ids input_message session_id stagger_delay attempt) = None
       \<and> st_effects (fst (run_attempt w api_key flow_ids input_message session_id
                             stagger_delay attempt)) = []"
proof -
  let ?futures = "submit_all w api_key flow_ids input_message session_id stagger_delay attempt"
  let ?handed = "map (\<lambda>(i, t). (?futures ! i, t))
                   (filter (\<lambda>(i, t). i < length ?futures) (as_completed w attempt))"
  have "\<forall>c \<in> set ?handed. out_cancelled (snd (fst c)) \<or> \<not> out_success (snd (fst c))"
  proof
    fix c assume "c \<in> set ?handed"
    then have "fst c \<in> set ?futures" by auto
    then show "out_cancelled (snd (fst c)) \<or> \<not> out_success (snd (fst c))"
      by (rule submit_all_lose [OF assms])
  qed
  from no_success_from_fresh [OF this, of "time_time w attempt"] show ?thesis
    by (simp add: run_attempt_loop handed_def Let_def)
qed

lemma loop_no_attempt:
  "filter is_attempt (st_effects (fst (for_as_completed overall_start cs fresh_attempt))) = []"
  using for_as_completed_effects [of fresh_attempt overall_start cs]
  by (auto simp: fresh_attempt_simps)

lemma run_attempt_no_attempt:
  "filter is_attempt (st_effects (fst (run_attempt w api_key flow_ids input_message session_id
                                         stagger_delay attempt))) = []"
  unfolding run_attempt_loop by (rule loop_no_attempt)

lemma retry_loop_failed_step:
  assumes "all_calls_fail w api_key flow_ids input_message session_id attempt"
    and "attempt < max_retries" and "0 \<le> retry_delay"
  shows "retry_loop w api_key flow_ids input_message stagger_delay max_retries retry_delay
           attempt session_id n
         = (Attempt attempt session_id # Attempt_failed attempt # Sleep (of_int retry_delay)
              # Uuid4 (uuid4 w n)
              # fst (retry_loop w api_key flow_ids input_message stagger_delay max_retries
                       retry_delay (attempt + 1) (uuid4 w n) (Suc n)),
            snd (retry_loop w api_key flow_ids input_message stagger_delay max_retries
                   retry_delay (attempt + 1) (uuid4 w n) (Suc n)))"
  using run_attempt_all_fail [OF assms(1), of stagger_delay] assms(2,3)
  by (subst retry_loop.simps) (simp add: Let_def)

lemma retry_loop_past:
  "max_retries < attempt \<Longrightarrow>
   retry_loop w api_key flow_ids input_message stagger_delay max_retries retry_delay
     attempt session_id n
   = ([], Inl (Exception (exhausted_message flow_ids max_retries)))"
  by (subst retry_loop.simps) simp

lemma retry_loop_failed_last:
  assumes "all_calls_fail w api_key flow_ids input_message session_id max_retries"
  shows "retry_loop w api_key flow_ids input_message stagger_delay max_retries retry_delay
           max_retries session_id n
         = ([Attempt max_retries session_id, Attempt_failed max_retries],
            Inl (Exception (exhausted_message flow_ids max_retries)))"
  using run_attempt_all_fail [OF assms, of stagger_delay]
  by (subst retry_loop.simps) (simp add: Let_def retry_loop_past)

lemma retry_loop_begins:
  assumes "attempt \<le> max_retries"
  shows "\<exists>rest. fst (retry_loop w api_key flow_ids input_message stagger_delay max_retries
                       retry_delay attempt session_id n)
                = Attempt attempt session_id # rest"
  using assms
  by (subst retry_loop.simps) (simp add: Let_def split: option.splits)

lemma failed_attempts_past: "max_retries < a \<Longrightarrow> failed_attempts w retry_delay max_retries a = []"
  by (simp add: failed_attempts_def)

lemma failed_attempts_step:
  "a < max_retries \<Longrightarrow>
   failed_attempts w retry_delay max_retries a
   = Attempt a (uuid4 w (nat (a - 1))) # Attempt_failed a # Sleep (of_int retry_delay)
       # Uuid4 (uuid4 w (nat a)) # failed_attempts w retry_delay max_retries (a + 1)"
  by (simp add: failed_attempts_def upto_rec1 [of a max_retries])

lemma failed_attempts_last:
  "failed_attempts w retry_delay max_retries max_retries
   = [Attempt max_retries (uuid4 w (nat (max_retries - 1))), Attempt_failed max_retries]"
  by (simp add: failed_attempts_def)

lemma retry_loop_exhausts:
  assumes "0 \<le> retry_delay" and "1 \<le> a" and "a \<le> max_retries + 1"
    and "\<forall>k. a \<le> k \<and> k \<le> max_retries \<longrightarrow>
           all_calls_fail w api_key flow_ids input_message (uuid4 w (nat (k - 1))) k"
  shows "retry_loop w api_key flow_ids input_message stagger_delay max_retries retry_delay
           a (uuid4 w (nat (a - 1))) (nat a)
         = (failed_attempts w retry_delay max_retries a,
            Inl (Exception (exhausted_message flow_ids max_retries)))"
  using assms(2-4)
proof (induction "nat (max_retries + 1 - a)" arbitrary: a)
  case 0
  then have "max_retries < a" by simp
  then show ?case by (simp add: retry_loop_past failed_attempts_past)
next
  case (Suc m)
  then have le: "a \<le> max_retries" by simp
  have fail: "all_calls_fail w api_key flow_ids input_message (uuid4 w (nat (a - 1))) a"
    using Suc.prems(3) le by simp
  show ?case
  proof (cases "a < max_retries")
    case True
    have m: "m = nat (max_retries + 1 - (a + 1))" using Suc.hyps(2) by simp
    have next_all: "\<forall>k. a + 1 \<le> k \<and> k \<le> max_retries \<longrightarrow>
           all_calls_fail w api_key flow_ids input_message (uuid4 w (nat (k - 1))) k"
      using Suc.prems(3) by simp
    have ih: "retry_loop w api_key flow_ids input_message stagger_delay max_retries retry_delay
           (a + 1) (uuid4 w (nat (a + 1 - 1))) (nat (a + 1))
         = (failed_attempts w retry_delay max_retries (a + 1),
            Inl (Exception (exhausted_message flow_ids max_retries)))"
      using Suc.hyps(1) [OF m _ _ next_all] Suc.prems(1) True by simp
    have idx: "nat (a + 1) = Suc (nat a)" "a + 1 - 1 = a"
      using Suc.prems(1) by simp_all
    show ?thesis
      using retry_loop_failed_step [OF fail True assms(1), of stagger_delay "nat a"] ih
      by (simp add: idx failed_attempts_step [OF True])
  next
    case False
    with le have eq: "a = max_retries" by simp
    show ?thesis
      using retry_loop_failed_last [of w api_key flow_ids input_message
          "uuid4 w (nat (max_retries - 1))" max_retries stagger_delay retry_delay "nat max_retries"]
        fail
      by (simp add: eq failed_attempts_last)
  qed
qed

lemma attempts_of_failed:
  "filter is_attempt (failed_attempts w retry_delay max_retries a)
   = map (\<lambda>k. Attempt k (uuid4 w (nat (k - 1)))) [a..max_retries]"
proof -
  have "filter is_attempt
          (concat (map (\<lambda>k. [Attempt k (uuid4 w (nat (k - 1))), Attempt_failed k]
                       @ (if k < max_retries
                          then [Sleep (of_int retry_delay), Uuid4 (uuid4 w (nat k))]
                          else [])) ks))
        = map (\<lambda>k. Attempt k (uuid4 w (nat (k - 1)))) ks" for ks
    by (induction ks) simp_all
  then show ?thesis by (simp add: failed_attempts_def)
qed

subsection \<open>Exhaustion and retry\<close>

lemma race_unfold:
  "call_langflow_staggered_race w api_key flow_ids input_message stagger_delay max_retries
     retry_delay
   = (Uuid4 (uuid4 w 0)
        # fst (retry_loop w api_key flow_ids input_message stagger_delay max_retries
                 retry_delay 1 (uuid4 w (nat (1 - 1))) (nat 1)),
      snd (retry_loop w api_key flow_ids input_message stagger_delay max_retries
             retry_delay 1 (uuid4 w (nat (1 - 1))) (nat 1)))"
  by (simp add: call_langflow_staggered_race_def Let_def)

text \<open>
  Claim C6. When the cooldown is not negative and every backend call fails in each of
  the attempts \<open>1\<close> to \<open>max_retries\<close>, the race ends with the final exception, whose
  message reports the total \<open>len(FLOW_IDS) * max_retries\<close>. Its effects are exactly the
  failed attempts \<open>1\<close> to \<open>max_retries\<close>, with a cooldown and a new session id between
  two attempts and nothing after the last: \<open>max_retries\<close> attempts and no more.
\<close>

theorem exhaustion_is_terminal:
  assumes "0 \<le> retry_delay"
    and "\<forall>k. 1 \<le> k \<and> k \<le> max_retries \<longrightarrow>
           all_calls_fail w api_key flow_ids input_message (uuid4 w (nat (k - 1))) k"
  shows "call_langflow_staggered_race w api_key flow_ids input_message stagger_delay
           max_retries retry_delay
         = (Uuid4 (uuid4 w 0) # failed_attempts w retry_delay max_retries 1,
            Inl (Exception (exhausted_message flow_ids max_retries)))
       \<and> last (exhausted_message flow_ids max_retries)
         = Num (int (length flow_ids) * max_retries)
       \<and> length (filter is_attempt
           (fst (call_langflow_staggered_race w api_key flow_ids input_message stagger_delay
                   max_retries retry_delay))) = nat max_retries"
proof -
  have run: "retry_loop w api_key flow_ids input_message stagger_delay max_retries retry_delay
           1 (uuid4 w (nat (1 - 1))) (nat 1)
         = (failed_attempts w retry_delay max_retries 1,
            Inl (Exception (exhausted_message flow_ids max_retries)))"
  proof (cases "1 \<le> max_retries + 1")
    case True
    show ?thesis
      by (rule retry_loop_exhausts [OF assms(1) _ True assms(2)]) simp
  next
    case False
    then have "max_retries < 1" by simp
    then show ?thesis by (simp add: retry_loop_past failed_attempts_past)
  qed
  have race: "call_langflow_staggered_race w api_key flow_ids input_message stagger_delay
           max_retries retry_delay
         = (Uuid4 (uuid4 w 0) # failed_attempts w retry_delay max_retries 1,
            Inl (Exception (exhausted_message flow_ids max_retries)))"
    unfolding race_unfold run by simp
  have count: "length (filter is_attempt (Uuid4 (uuid4 w 0) # failed_attempts w retry_delay max_retries 1))
               = nat max_retries"
    by (simp add: attempts_of_failed)
  show ?thesis
    unfolding race using count by (simp add: exhausted_message_def)
qed

lemma dead_world_fails:
  "all_calls_fail dead_world api_key FLOW_IDS input_message session_id k"
  by (simp add: all_calls_fail_def dead_world_def send_request_def try_body_def timing_out_def
        out_success_def list_all_iff Let_def)

theorem exhaustion_is_terminal_witness:
  "(0::int) \<le> 2
   \<and> all_calls_fail dead_world ''key'' FLOW_IDS ''q'' (uuid4 dead_world (nat (1 - 1))) 1
   \<and> all_calls_fail dead_world ''key'' FLOW_IDS ''q'' (uuid4 dead_world (nat (2 - 1))) 2
   \<and> all_calls_fail dead_world ''key'' FLOW_IDS ''q'' (uuid4 dead_world (nat (3 - 1))) 3
   \<and> snd (call_langflow_staggered_race dead_world ''key'' FLOW_IDS ''q'' 7 3 2)
     = Inl (Exception (exhausted_message FLOW_IDS 3))
   \<and> last (exhausted_message FLOW_IDS 3) = Num 9
   \<and> length (filter is_attempt
        (fst (call_langflow_staggered_race dead_world ''key'' FLOW_IDS ''q'' 7 3 2))) = 3"
proof -
  have all: "\<forall>k. 1 \<le> k \<and> k \<le> 3 \<longrightarrow>
           all_calls_fail dead_world ''key'' FLOW_IDS ''q'' (uuid4 dead_world (nat (k - 1))) k"
    by (simp add: dead_world_fails)
  have len: "int (length FLOW_IDS) * 3 = 9" by (simp add: FLOW_IDS_def)
  show ?thesis
    using exhaustion_is_terminal [of 2 3 dead_world "''key''" FLOW_IDS "''q''" 7, OF _ all]
    by (simp add: dead_world_fails len attempts_of_failed)
qed

lemma retry_loop_reaches:
  assumes "0 \<le> retry_delay" and "1 \<le> a" and "a \<le> k" and "k < max_retries"
    and "\<forall>j. a \<le> j \<and> j \<le> k \<longrightarrow>
           all_calls_fail w api_key flow_ids input_message (uuid4 w (nat (j - 1))) j"
  shows "\<exists>before after.
           fst (retry_loop w api_key flow_ids input_message stagger_delay max_retries retry_delay
                  a (uuid4 w (nat (a - 1))) (nat a))
           = before @ [Attempt k (uuid4 w (nat (k - 1))), Attempt_failed k,
                       Sleep (of_int retry_delay), Uuid4 (uuid4 w (nat k)),
                       Attempt (k + 1) (uuid4 w (nat k))] @ after"
  using assms(2,3,5)
proof (induction "nat (k - a)" arbitrary: a)
  case 0
  then have eq: "a = k" by simp
  have fail: "all_calls_fail w api_key flow_ids input_message (uuid4 w (nat (k - 1))) k"
    using "0.prems"(3) eq by simp
  obtain rest where rest: "fst (retry_loop w api_key flow_ids input_message stagger_delay
        max_retries retry_delay (k + 1) (uuid4 w (nat k)) (Suc (nat k)))
      = Attempt (k + 1) (uuid4 w (nat k)) # rest"
    using retry_loop_begins [of "k + 1" max_retries] assms(4) by (metis zless_imp_add1_zle)
  have "fst (retry_loop w api_key flow_ids input_message stagger_delay max_retries retry_delay
                  k (uuid4 w (nat (k - 1))) (nat k))
        = [] @ [Attempt k (uuid4 w (nat (k - 1))), Attempt_failed k,
                       Sleep (of_int retry_delay), Uuid4 (uuid4 w (nat k)),
                       Attempt (k + 1) (uuid4 w (nat k))] @ rest"
    using retry_loop_failed_step [OF fail assms(4) assms(1), of stagger_delay "nat k"] rest
    by simp
  then show ?case unfolding eq by blast
next
  case (Suc m)
  then have lt: "a < k" by simp
  then have ltm: "a < max_retries" using assms(4) by simp
  have fail: "all_calls_fail w api_key flow_ids input_message (uuid4 w (nat (a - 1))) a"
    using Suc.prems(2,3) by simp
  have m: "m = nat (k - (a + 1))" using Suc.hyps(2) by simp
  have rest_fail: "\<forall>j. a + 1 \<le> j \<and> j \<le> k \<longrightarrow>
           all_calls_fail w api_key flow_ids input_message (uuid4 w (nat (j - 1))) j"
    using Suc.prems(3) by simp
  obtain before after where ih:
    "fst (retry_loop w api_key flow_ids input_message stagger_delay max_retries retry_delay
            (a + 1) (uuid4 w (nat (a + 1 - 1))) (nat (a + 1)))
     = before @ [Attempt k (uuid4 w (nat (k - 1))), Attempt_failed k,
                 Sleep (of_int retry_delay), Uuid4 (uuid4 w (nat k)),
                 Attempt (k + 1) (uuid4 w (nat k))] @ after"
    using Suc.hyps(1) [OF m _ _ rest_fail] Suc.prems(1) lt by auto
  have idx: "nat (a + 1) = Suc (nat a)" "a + 1 - 1 = a"
    using Suc.prems(1) by simp_all
  have "fst (retry_loop w api_key flow_ids input_message stagger_delay max_retries retry_delay
                  a (uuid4 w (nat (a - 1))) (nat a))
        = ([Attempt a (uuid4 w (nat (a - 1))), Attempt_failed a, Sleep (of_int retry_delay),
            Uuid4 (uuid4 w (nat a))] @ before)
          @ [Attempt k (uuid4 w (nat (k - 1))), Attempt_failed k,
             Sleep (of_int retry_delay), Uuid4 (uuid4 w (nat k)),
             Attempt (k + 1) (uuid4 w (nat k))] @ after"
    using retry_loop_failed_step [OF fail ltm assms(1), of stagger_delay "nat a"] ih
    by (simp add: idx)
  then show ?case by blast
qed

lemma attempts_bounded:
  "length (filter is_attempt
     (fst (retry_loop w api_key flow_ids input_message stagger_delay max_retries retry_delay
             attempt session_id n)))
   \<le> nat (max_retries + 1 - attempt)"
proof (induction w api_key flow_ids input_message stagger_delay max_retries retry_delay
         attempt session_id n rule: retry_loop.induct)
  case (1 w api_key flow_ids input_message stagger_delay max_retries retry_delay attempt
          session_id n)
  show ?case
  proof (cases "attempt \<le> max_retries")
    case False
    then show ?thesis by (simp add: retry_loop_past)
  next
    case True
    let ?ran = "run_attempt w api_key flow_ids input_message session_id stagger_delay attempt"
    show ?thesis
    proof (cases "snd ?ran")
      case (Some result)
      with True show ?thesis
        by (subst retry_loop.simps) (simp add: Let_def run_attempt_no_attempt)
    next
      case None
      show ?thesis
      proof (cases "attempt < max_retries")
        case lt: True
        show ?thesis
        proof (cases "retry_delay < 0")
          case True
          with lt None show ?thesis
            by (subst retry_loop.simps) (simp add: Let_def run_attempt_no_attempt)
        next
          case False
          have "length (filter is_attempt
             (fst (retry_loop w api_key flow_ids input_message stagger_delay max_retries
                     retry_delay (attempt + 1) (uuid4 w n) (Suc n))))
             \<le> nat (max_retries + 1 - (attempt + 1))"
            using "1.IH"(1) [OF True refl refl None lt False refl] .
          with lt None False show ?thesis
            by (subst retry_loop.simps) (simp add: Let_def run_attempt_no_attempt)
        qed
      next
        case nlt: False
        have "length (filter is_attempt
             (fst (retry_loop w api_key flow_ids input_message stagger_delay max_retries
                     retry_delay (attempt + 1) session_id n)))
             \<le> nat (max_retries + 1 - (attempt + 1))"
          using "1.IH"(2) [OF True refl refl None nlt] .
        with True nlt None show ?thesis
          by (subst retry_loop.simps) (simp add: Let_def run_attempt_no_attempt)
      qed
    qed
  qed
qed

lemma retry_loop_errors:
  "snd (retry_loop w api_key flow_ids input_message stagger_delay max_retries retry_delay
          attempt session_id n) = Inl e \<Longrightarrow>
   e = Exception (exhausted_message flow_ids max_retries) \<or> (e = ValueError \<and> retry_delay < 0)"
proof (induction w api_key flow_ids input_message stagger_delay max_retries retry_delay
         attempt session_id n rule: retry_loop.induct)
  case (1 w api_key flow_ids input_message stagger_delay max_retries retry_delay attempt
          session_id n)
  show ?case
  proof (cases "attempt \<le> max_retries")
    case False
    with "1.prems" show ?thesis by (simp add: retry_loop_past)
  next
    case True
    let ?ran = "run_attempt w api_key flow_ids input_message session_id stagger_delay attempt"
    show ?thesis
    proof (cases "snd ?ran")
      case (Some result)
      with True "1.prems" show ?thesis
        by (subst (asm) retry_loop.simps) (simp add: Let_def)
    next
      case None
      show ?thesis
      proof (cases "attempt < max_retries")
        case lt: True
        show ?thesis
        proof (cases "retry_delay < 0")
          case True
          with lt None "1.prems" show ?thesis
            by (subst (asm) retry_loop.simps) (simp add: Let_def)
        next
          case False
          have "snd (retry_loop w api_key flow_ids input_message stagger_delay max_retries
                     retry_delay (attempt + 1) (uuid4 w n) (Suc n)) = Inl e"
            using lt None False True "1.prems"
            by (subst (asm) retry_loop.simps) (simp add: Let_def)
          then show ?thesis
            using "1.IH"(1) [OF True refl refl None lt False refl] by simp
        qed
      next
        case nlt: False
        have "snd (retry_loop w api_key flow_ids input_message stagger_delay max_retries
                     retry_delay (attempt + 1) session_id n) = Inl e"
          using nlt None True "1.prems"
          by (subst (asm) retry_loop.simps) (simp add: Let_def)
        then show ?thesis
          using "1.IH"(2) [OF True refl refl None nlt] by simp
      qed
    qed
  qed
qed

text \<open>
  Claim C5. Let the cooldown be not negative, let every backend call fail in each of
  the attempts \<open>1\<close> to \<open>k\<close>, and let \<open>k\<close> be less than \<open>max_retries\<close>. Then attempt
  \<open>k\<close> is reported as failed, the scheduler sleeps \<open>retry_delay\<close> seconds, draws a new
  string from \<^verbatim>\<open>uuid.uuid4\<close> and starts attempt \<open>k + 1\<close> under it. Attempt \<open>k\<close> ran
  under the draw before, so the two session ids differ when these two draws of
  \<^verbatim>\<open>uuid.uuid4\<close> differ. Whatever the backends do, a race starts at most
  \<open>max_retries\<close> attempts.
\<close>

theorem all_fail_triggers_retry:
  assumes "0 \<le> retry_delay" and "1 \<le> k" and "k < max_retries"
    and "\<forall>j. 1 \<le> j \<and> j \<le> k \<longrightarrow>
           all_calls_fail w api_key flow_ids input_message (uuid4 w (nat (j - 1))) j"
    and "uuid4 w (nat k) \<noteq> uuid4 w (nat (k - 1))"
  shows "(\<exists>before after sid sid'.
            sid = uuid4 w (nat (k - 1)) \<and> sid' = uuid4 w (nat k) \<and> sid' \<noteq> sid
            \<and> fst (call_langflow_staggered_race w api_key flow_ids input_message stagger_delay
                      max_retries retry_delay)
              = before @ [Attempt k sid, Attempt_failed k, Sleep (of_int retry_delay),
                          Uuid4 sid', Attempt (k + 1) sid'] @ after)
       \<and> length (filter is_attempt
           (fst (call_langflow_staggered_race w api_key flow_ids input_message stagger_delay
                   max_retries retry_delay))) \<le> nat max_retries"
proof -
  obtain before after where
    "fst (retry_loop w api_key flow_ids input_message stagger_delay max_retries retry_delay
            1 (uuid4 w (nat (1 - 1))) (nat 1))
     = before @ [Attempt k (uuid4 w (nat (k - 1))), Attempt_failed k,
                 Sleep (of_int retry_delay), Uuid4 (uuid4 w (nat k)),
                 Attempt (k + 1) (uuid4 w (nat k))] @ after"
    using retry_loop_reaches [OF assms(1) _ assms(2) assms(3) assms(4), of stagger_delay]
    by auto
  then have "fst (call_langflow_staggered_race w api_key flow_ids input_message stagger_delay
                      max_retries retry_delay)
      = (Uuid4 (uuid4 w 0) # before)
        @ [Attempt k (uuid4 w (nat (k - 1))), Attempt_failed k,
           Sleep (of_int retry_delay), Uuid4 (uuid4 w (nat k)),
           Attempt (k + 1) (uuid4 w (nat k))] @ after"
    unfolding race_unfold by simp
  then have first: "\<exists>before after sid sid'.
            sid = uuid4 w (nat (k - 1)) \<and> sid' = uuid4 w (nat k) \<and> sid' \<noteq> sid
            \<and> fst (call_langflow_staggered_race w api_key flow_ids input_message stagger_delay
                      max_retries retry_delay)
              = before @ [Attempt k sid, Attempt_failed k, Sleep (of_int retry_delay),
                          Uuid4 sid', Attempt (k + 1) sid'] @ after"
    using assms(5) by blast
  have "length (filter is_attempt
           (fst (call_langflow_staggered_race w api_key flow_ids input_message stagger_delay
                   max_retries retry_delay))) \<le> nat max_retries"
    unfolding race_unfold
    using attempts_bounded [of w api_key flow_ids input_message stagger_delay max_retries
        retry_delay 1 "uuid4 w (nat (1 - 1))" "nat 1"]
    by simp
  with first show ?thesis by blast
qed

theorem all_fail_triggers_retry_witness:
  "(0::int) \<le> 2 \<and> (1::int) \<le> 1 \<and> (1::int) < 3
   \<and> all_calls_fail dead_world ''key'' FLOW_IDS ''q'' (uuid4 dead_world (nat (1 - 1))) 1
   \<and> uuid4 dead_world (nat 1) \<noteq> uuid4 dead_world (nat (1 - 1))
   \<and> (\<exists>before after.
         fst (call_langflow_staggered_race dead_world ''key'' FLOW_IDS ''q'' 7 3 2)
         = before @ [Attempt 1 ''session-'', Attempt_failed 1, Sleep 2,
                     Uuid4 ''session-i'', Attempt 2 ''session-i''] @ after)"
proof -
  have all: "\<forall>j. 1 \<le> j \<and> j \<le> 1 \<longrightarrow>
           all_calls_fail dead_world ''key'' FLOW_IDS ''q'' (uuid4 dead_world (nat (j - 1))) j"
    by (simp add: dead_world_fails)
  have fresh: "uuid4 dead_world (nat 1) \<noteq> uuid4 dead_world (nat (1 - 1))"
    by (simp add: dead_world_def sample_uuid_def)
  have ids: "uuid4 dead_world (nat (1 - 1)) = ''session-''" "uuid4 dead_world (nat 1) = ''session-i''"
    by (simp_all add: dead_world_def sample_uuid_def)
  have "\<exists>before after sid sid'.
            sid = uuid4 dead_world (nat (1 - 1)) \<and> sid' = uuid4 dead_world (nat 1) \<and> sid' \<noteq> sid
            \<and> fst (call_langflow_staggered_race dead_world ''key'' FLOW_IDS ''q'' 7 3 2)
              = before @ [Attempt 1 sid, Attempt_failed 1, Sleep (of_int 2),
                          Uuid4 sid', Attempt (1 + 1) sid'] @ after"
    using all_fail_triggers_retry [of 2 1 3 dead_world "''key''" FLOW_IDS "''q''" 7, OF _ _ _ all fresh]
    by simp
  then have "\<exists>before after.
         fst (call_langflow_staggered_race dead_world ''key'' FLOW_IDS ''q'' 7 3 2)
         = before @ [Attempt 1 ''session-'', Attempt_failed 1, Sleep 2,
                     Uuid4 ''session-i'', Attempt 2 ''session-i''] @ after"
    unfolding ids by simp
  with fresh show ?thesis by (simp add: dead_world_fails)
qed

lemma send_request_raised:
  assumes "snd (requests_post (make_request api_key flow_id input_message session_id)) = Inl e"
  shows "snd (send_request requests_post api_key flow_id input_message session_id)
         = (False, flow_id, [],
            fst (requests_post (make_request api_key flow_id input_message session_id)), False)"
  using assms by (simp add: send_request_def try_body_def Let_def split: pyexn.splits)

lemma send_request_bad_status:
  assumes "snd (requests_post (make_request api_key flow_id input_message session_id)) = Inr r"
    and "400 \<le> status_code r \<and> status_code r < 600"
  shows "snd (send_request requests_post api_key flow_id input_message session_id)
         = (False, flow_id, [],
            fst (requests_post (make_request api_key flow_id input_message session_id)), False)"
  using assms by (simp add: send_request_def try_body_def raise_for_status_def Let_def)

lemma send_request_not_json:
  assumes "snd (requests_post (make_request api_key flow_id input_message session_id)) = Inr r"
    and "body r = None"
  shows "snd (send_request requests_post api_key flow_id input_message session_id)
         = (False, flow_id, [],
            fst (requests_post (make_request api_key flow_id input_message session_id)), False)"
  using assms
  by (simp add: send_request_def try_body_def raise_for_status_def response_json_def Let_def)

lemma send_request_answered:
  assumes "snd (requests_post (make_request api_key flow_id input_message session_id)) = Inr r"
    and "\<not> (400 \<le> status_code r \<and> status_code r < 600)"
    and "body r = Some response_data"
  shows "snd (send_request requests_post api_key flow_id input_message session_id)
         = (case extract_message_from_response response_data of
              Inr (JStr s) \<Rightarrow>
                if \<exists>c \<in> set s. \<not> isspace c
                then (True, flow_id, s,
                      fst (requests_post (make_request api_key flow_id input_message session_id)),
                      False)
                else (False, flow_id, [],
                      fst (requests_post (make_request api_key flow_id input_message session_id)),
                      False)
            | _ \<Rightarrow> (False, flow_id, [],
                    fst (requests_post (make_request api_key flow_id input_message session_id)),
                    False))"
proof -
  obtain v where v: "extract_message_from_response response_data = Inr v"
    using extract_never_raises by blast
  have blank: "(s \<noteq> [] \<and> strip s \<noteq> []) \<longleftrightarrow> (\<exists>c \<in> set s. \<not> isspace c)" for s
    using strip_empty_iff [of s] by auto
  have ok: "raise_for_status r = Inr ()"
    using assms(2) by (simp add: raise_for_status_def)
  show ?thesis
    using assms(1,3)
    by (cases v)
       (simp_all add: send_request_def try_body_def ok response_json_def Let_def v blank)
qed

lemma extract_unparseable:
  assumes "getpath response_data message_path = Inl e"
  shows "extract_message_from_response response_data = Inr (JStr [])"
  using getpath_raises [OF assms] assms by (auto simp: extract_message_from_response_def)

subsection \<open>Outcomes of a backend call\<close>

lemma worker_sent:
  assumes "\<not> out_cancelled (snd (call_single_flow_with_delay requests_post api_key flow_id
                                     input_message session_id delay_seconds winner_event))"
  shows "snd (call_single_flow_with_delay requests_post api_key flow_id input_message session_id
                delay_seconds winner_event)
         = snd (send_request requests_post api_key flow_id input_message session_id)"
  using worker_outcome [of requests_post api_key flow_id input_message session_id delay_seconds
      winner_event] assms
  by (auto simp: out_cancelled_def)

text \<open>
  Claim C9, as the code has it. For a worker that was not cancelled and a response
  with a good status and a JSON body: when the extracted text is a string with at
  least one character that is not white space, the outcome is a success carrying that
  text unchanged; in every other case (an empty or blank string, a text that is not a
  string, a body without the path) the outcome is a failure with an empty message.
\<close>

theorem nonblank_text_succeeds:
  assumes "\<not> out_cancelled (snd (call_single_flow_with_delay requests_post api_key flow_id
                                     input_message session_id delay_seconds winner_event))"
    and "snd (requests_post (make_request api_key flow_id input_message session_id)) = Inr r"
    and "\<not> (400 \<le> status_code r \<and> status_code r < 600)"
    and "body r = Some response_data"
  shows "snd (call_single_flow_with_delay requests_post api_key flow_id input_message session_id
                delay_seconds winner_event)
         = (case extract_message_from_response response_data of
              Inr (JStr s) \<Rightarrow>
                if \<exists>c \<in> set s. \<not> isspace c
                then (True, flow_id, s,
                      fst (requests_post (make_request api_key flow_id input_message session_id)),
                      False)
                else (False, flow_id, [],
                      fst (requests_post (make_request api_key flow_id input_message session_id)),
                      False)
            | _ \<Rightarrow> (False, flow_id, [],
                    fst (requests_post (make_request api_key flow_id input_message session_id)),
                    False))"
proof -
  have "snd (call_single_flow_with_delay requests_post api_key flow_id input_message session_id
                delay_seconds winner_event)
        = snd (send_request requests_post api_key flow_id input_message session_id)"
    by (rule worker_sent [OF assms(1)])
  also have "\<dots> = (case extract_message_from_response response_data of
              Inr (JStr s) \<Rightarrow>
                if \<exists>c \<in> set s. \<not> isspace c
                then (True, flow_id, s,
                      fst (requests_post (make_request api_key flow_id input_message session_id)),
                      False)
                else (False, flow_id, [],
                      fst (requests_post (make_request api_key flow_id input_message session_id)),
                      False)
            | _ \<Rightarrow> (False, flow_id, [],
                    fst (requests_post (make_request api_key flow_id input_message session_id)),
                    False))"
    using assms(2-4) by (rule send_request_answered)
  finally show ?thesis .
qed

lemma extract_answer: "extract_message_from_response (answer s) = Inr (JStr s)"
  by (simp add: extract_message_from_response_def answer_def message_path_def)

theorem nonblank_text_succeeds_witness:
  "\<not> out_cancelled (snd (call_single_flow_with_delay (answering ''hello'') ''key'' ''A'' ''q''
                           ''s'' 0 None))
   \<and> snd (answering ''hello'' (make_request ''key'' ''A'' ''q'' ''s''))
     = Inr \<lparr>status_code = 200, body = Some (answer ''hello'')\<rparr>
   \<and> snd (call_single_flow_with_delay (answering ''hello'') ''key'' ''A'' ''q'' ''s'' 0 None)
     = (True, ''A'', ''hello'', 2, False)"
proof -
  have sent: "\<not> out_cancelled (snd (call_single_flow_with_delay (answering ''hello'') ''key''
                 ''A'' ''q'' ''s'' 0 None))"
    by (simp add: worker_without_delay send_request_not_cancelled)
  have reply: "snd (answering ''hello'' (make_request ''key'' ''A'' ''q'' ''s''))
     = Inr \<lparr>status_code = 200, body = Some (answer ''hello'')\<rparr>"
    by (simp add: answering_def)
  have lat: "fst (answering ''hello'' (make_request ''key'' ''A'' ''q'' ''s'')) = 2"
    by (simp add: answering_def)
  have "snd (call_single_flow_with_delay (answering ''hello'') ''key'' ''A'' ''q'' ''s'' 0 None)
     = (True, ''A'', ''hello'', 2, False)"
    using nonblank_text_succeeds [of "answering ''hello''" "''key''" "''A''" "''q''" "''s''" 0 None
        "\<lparr>status_code = 200, body = Some (answer ''hello'')\<rparr>" "answer ''hello''"]
      sent reply
    by (simp add: extract_answer isspace_def lat)
  with sent reply show ?thesis by simp
qed

text \<open>
  The claim as stated fails for a text that is not empty but blank: the flow answers
  with one space and the outcome is a failure.
\<close>

theorem blank_text_counterexample:
  "extract_message_from_response (answer '' '') = Inr (JStr '' '') \<and> '' '' \<noteq> []
   \<and> snd (answering '' '' (make_request ''key'' ''A'' ''q'' ''s''))
     = Inr \<lparr>status_code = 200, body = Some (answer '' '')\<rparr>
   \<and> snd (call_single_flow_with_delay (answering '' '') ''key'' ''A'' ''q'' ''s'' 0 None)
     = (False, ''A'', [], 2, False)"
proof -
  have reply: "snd (answering '' '' (make_request ''key'' ''A'' ''q'' ''s''))
     = Inr \<lparr>status_code = 200, body = Some (answer '' '')\<rparr>"
    by (simp add: answering_def)
  have lat: "fst (answering '' '' (make_request ''key'' ''A'' ''q'' ''s'')) = 2"
    by (simp add: answering_def)
  have "snd (send_request (answering '' '') ''key'' ''A'' ''q'' ''s'') = (False, ''A'', [], 2, False)"
    using send_request_answered [of "answering '' ''" "''key''" "''A''" "''q''" "''s''"
        "\<lparr>status_code = 200, body = Some (answer '' '')\<rparr>" "answer '' ''"]
      reply
    by (simp add: extract_answer isspace_def lat)
  then show ?thesis
    using reply by (simp add: worker_without_delay extract_answer)
qed

text \<open>
  Claim C8. A worker always returns one outcome: the cancelled one, a failure with an
  empty message, or a success. When it was not cancelled and the call raised (a
  timeout or any other exception), or the status was an error, or the body was not
  JSON, or the body lacked the path to the text, the outcome is the failure with an
  empty message. The only exceptions that leave the race are its own: the final one
  after the last attempt, and the \<^verbatim>\<open>ValueError\<close> of \<^verbatim>\<open>time.sleep\<close> for a negative
  cooldown.
\<close>

theorem worker_errors_are_outcomes:
  "(snd (call_single_flow_with_delay requests_post api_key flow_id input_message session_id
           delay_seconds winner_event) = (False, flow_id, [], 0, True)
    \<or> snd (call_single_flow_with_delay requests_post api_key flow_id input_message session_id
           delay_seconds winner_event)
      = (False, flow_id, [],
         fst (requests_post (make_request api_key flow_id input_message session_id)), False)
    \<or> (\<exists>message. message \<noteq> []
         \<and> snd (call_single_flow_with_delay requests_post api_key flow_id input_message
                  session_id delay_seconds winner_event)
           = (True, flow_id, message,
              fst (requests_post (make_request api_key flow_id input_message session_id)),
              False)))
   \<and> (\<not> out_cancelled (snd (call_single_flow_with_delay requests_post api_key flow_id
                               input_message session_id delay_seconds winner_event))
        \<and> ((\<exists>e. snd (requests_post (make_request api_key flow_id input_message session_id))
                 = Inl e)
           \<or> (\<exists>r. snd (requests_post (make_request api_key flow_id input_message session_id))
                    = Inr r
                 \<and> ((400 \<le> status_code r \<and> status_code r < 600)
                    \<or> body r = None
                    \<or> (\<exists>j e. body r = Some j \<and> getpath j message_path = Inl e))))
      \<longrightarrow> snd (call_single_flow_with_delay requests_post api_key flow_id input_message
                 session_id delay_seconds winner_event)
          = (False, flow_id, [],
             fst (requests_post (make_request api_key flow_id input_message session_id)),
             False))
   \<and> (\<forall>e. snd (call_langflow_staggered_race w api_key flow_ids input_message stagger_delay
                  max_retries retry_delay) = Inl e
          \<longrightarrow> e = Exception (exhausted_message flow_ids max_retries)
              \<or> (e = ValueError \<and> retry_delay < 0))"
proof (intro conjI impI allI)
  show "snd (call_single_flow_with_delay requests_post api_key flow_id input_message session_id
           delay_seconds winner_event) = (False, flow_id, [], 0, True)
    \<or> snd (call_single_flow_with_delay requests_post api_key flow_id input_message session_id
           delay_seconds winner_event)
      = (False, flow_id, [],
         fst (requests_post (make_request api_key flow_id input_message session_id)), False)
    \<or> (\<exists>message. message \<noteq> []
         \<and> snd (call_single_flow_with_delay requests_post api_key flow_id input_message
                  session_id delay_seconds winner_event)
           = (True, flow_id, message,
              fst (requests_post (make_request api_key flow_id input_message session_id)),
              False))"
    using worker_outcome [of requests_post api_key flow_id input_message session_id
        delay_seconds winner_event]
      send_request_cases [of requests_post api_key flow_id input_message session_id]
    by auto
next
  let ?reply = "requests_post (make_request api_key flow_id input_message session_id)"
  let ?failed = "(False, flow_id, [], fst ?reply, False)"
  assume a: "\<not> out_cancelled (snd (call_single_flow_with_delay requests_post api_key flow_id
                               input_message session_id delay_seconds winner_event))
        \<and> ((\<exists>e. snd ?reply = Inl e)
           \<or> (\<exists>r. snd ?reply = Inr r
                 \<and> ((400 \<le> status_code r \<and> status_code r < 600)
                    \<or> body r = None
                    \<or> (\<exists>j e. body r = Some j \<and> getpath j message_path = Inl e))))"
  then have sent: "snd (call_single_flow_with_delay requests_post api_key flow_id input_message
                 session_id delay_seconds winner_event)
      = snd (send_request requests_post api_key flow_id input_message session_id)"
    using worker_sent by blast
  have "snd (send_request requests_post api_key flow_id input_message session_id) = ?failed"
  proof -
    consider (raised) e where "snd ?reply = Inl e"
      | (status) r where "snd ?reply = Inr r" "400 \<le> status_code r \<and> status_code r < 600"
      | (not_json) r where "snd ?reply = Inr r" "body r = None"
      | (shape) r j e where "snd ?reply = Inr r" "\<not> (400 \<le> status_code r \<and> status_code r < 600)"
          "body r = Some j" "getpath j message_path = Inl e"
      using a by blast
    then show ?thesis
    proof cases
      case raised
      then show ?thesis by (rule send_request_raised)
    next
      case status
      then show ?thesis by (rule send_request_bad_status)
    next
      case not_json
      then show ?thesis by (rule send_request_not_json)
    next
      case shape
      show ?thesis
        using send_request_answered [of requests_post api_key flow_id input_message session_id
            r j] shape(1-3) extract_unparseable [OF shape(4)]
        by simp
    qed
  qed
  with sent show "snd (call_single_flow_with_delay requests_post api_key flow_id input_message
                 session_id delay_seconds winner_event) = ?failed"
    by simp
next
  fix e
  assume "snd (call_langflow_staggered_race w api_key flow_ids input_message stagger_delay
                  max_retries retry_delay) = Inl e"
  then show "e = Exception (exhausted_message flow_ids max_retries)
              \<or> (e = ValueError \<and> retry_delay < 0)"
    unfolding race_unfold by (simp add: retry_loop_errors)
qed

theorem worker_errors_are_outcomes_witness:
  "\<not> out_cancelled (snd (call_single_flow_with_delay timing_out ''key'' ''A'' ''q'' ''s'' 0 None))
   \<and> snd (timing_out (make_request ''key'' ''A'' ''q'' ''s'')) = Inl Timeout
   \<and> snd (call_single_flow_with_delay timing_out ''key'' ''A'' ''q'' ''s'' 0 None)
     = (False, ''A'', [], 30, False)"
proof -
  have sent: "\<not> out_cancelled (snd (call_single_flow_with_delay timing_out ''key'' ''A'' ''q''
                 ''s'' 0 None))"
    by (simp add: worker_without_delay send_request_not_cancelled)
  have reply: "snd (timing_out (make_request ''key'' ''A'' ''q'' ''s'')) = Inl Timeout"
    by (simp add: timing_out_def)
  have "snd (call_single_flow_with_delay timing_out ''key'' ''A'' ''q'' ''s'' 0 None)
     = (False, ''A'', [], fst (timing_out (make_request ''key'' ''A'' ''q'' ''s'')), False)"
    using worker_errors_are_outcomes [of timing_out "''key''" "''A''" "''q''" "''s''" 0 None]
      sent reply
    by blast
  then have "snd (call_single_flow_with_delay timing_out ''key'' ''A'' ''q'' ''s'' 0 None)
     = (False, ''A'', [], 30, False)"
    by (simp add: timing_out_def)
  with sent reply show ?thesis by simp
qed

section \<open>The winner of an attempt\<close>




















end
